theory Spec2Isabelle
  imports Complex_Main "HOL-Library.AList" "HOL-Library.List_Lexorder" "HOL-Library.Char_ord"
begin

section \<open>Data model\<close>

text \<open>
  The embedding follows \<^verbatim>\<open>internal/cli/universal_login_customize.go\<close>. A Go
  \<^verbatim>\<open>error\<close> is a value of type \<open>error\<close>; a pointer that may be nil is an
  \<open>option\<close>; a result pair \<^verbatim>\<open>(value, err)\<close> of which only one side is meaningful is
  a sum \<open>error + 'a\<close> with \<open>Inl\<close> the error.
\<close>

datatype error = Err string

text \<open>
  A Go \<^verbatim>\<open>interface{}\<close> holding a decoded JSON document. \<^verbatim>\<open>map[string]interface{}\<close>
  is \<open>JObj\<close> over an association list; the type assertion
  \<^verbatim>\<open>value.(map[string]interface{})\<close> succeeds exactly on \<open>JObj\<close>. A \<^verbatim>\<open>float64\<close> is
  kept as the literal that encoding/json prints for it, so no floating-point arithmetic
  is involved. Go maps have no duplicate keys: see \<open>wf_map\<close> below.
\<close>

datatype json =
    JNull
  | JBool bool
  | JNum string
  | JStr string
  | JArr "json list"
  | JObj "(string \<times> json) list"

type_synonym jmap = "(string \<times> json) list"

fun is_object :: "json \<Rightarrow> bool" where
  "is_object (JObj _) = True"
| "is_object _ = False"

fun wf_json :: "json \<Rightarrow> bool" where
  "wf_json (JObj m) = (distinct (map fst m) \<and> list_all (\<lambda>(k, v). wf_json v) m)"
| "wf_json (JArr xs) = list_all wf_json xs"
| "wf_json _ = True"

definition wf_map :: "jmap \<Rightarrow> bool" where
  "wf_map m = wf_json (JObj m)"

text \<open>
  The types of the management library that the code names (lines 101 to 115 and 184 to
  257), with the fields the code reads or writes. The numeric theme fields are
  \<^verbatim>\<open>float64\<close> constants that are exact binary fractions, so \<open>real\<close> holds them
  exactly. Two theme fields are renamed because another record has a field of the same
  name: \<open>FontsBodyText\<close> is \<^verbatim>\<open>Fonts.BodyText\<close> and \<open>WidgetLogoURL\<close> is
  \<^verbatim>\<open>Widget.LogoURL\<close>.
\<close>

record BrandingThemeBorders =
  ButtonBorderRadius :: real
  ButtonBorderWeight :: real
  ButtonsStyle :: string
  InputBorderRadius :: real
  InputBorderWeight :: real
  InputsStyle :: string
  ShowWidgetShadow :: bool
  WidgetBorderWeight :: real
  WidgetCornerRadius :: real

record BrandingThemeColors =
  BaseFocusColor :: "string option"
  BaseHoverColor :: "string option"
  BodyText :: string
  Error :: string
  Header :: string
  Icons :: string
  InputBackground :: string
  InputBorder :: string
  InputFilledText :: string
  InputLabelsPlaceholders :: string
  LinksFocusedComponents :: string
  PrimaryButton :: string
  PrimaryButtonLabel :: string
  SecondaryButtonBorder :: string
  SecondaryButtonLabel :: string
  Success :: string
  WidgetBackground :: string
  WidgetBorder :: string

record BrandingThemeText =
  Bold :: bool
  Size :: real

record BrandingThemeFonts =
  FontsBodyText :: BrandingThemeText
  ButtonsText :: BrandingThemeText
  FontURL :: string
  InputLabels :: BrandingThemeText
  Links :: BrandingThemeText
  LinksStyle :: string
  ReferenceTextSize :: real
  Subtitle :: BrandingThemeText
  Title :: BrandingThemeText

record BrandingThemePageBackground =
  BackgroundColor :: string
  BackgroundImageURL :: string
  PageLayout :: string

record BrandingThemeWidget =
  HeaderTextAlignment :: string
  LogoHeight :: real
  LogoPosition :: string
  WidgetLogoURL :: string
  SocialButtonsLayout :: string

record BrandingTheme =
  ID :: "string option"
  DisplayName :: "string option"
  Borders :: BrandingThemeBorders
  Colors :: BrandingThemeColors
  Fonts :: BrandingThemeFonts
  PageBackground :: BrandingThemePageBackground
  Widget :: BrandingThemeWidget

record Prompt =
  UniversalLoginExperience :: string
  IdentifierFirst :: "bool option"
  WebAuthnPlatformFirstFactor :: "bool option"

text \<open>
  Of the branding settings the code touches \<^verbatim>\<open>LogoURL\<close> only; the colours and the
  font are carried along in \<open>Settings\<close>.
\<close>

record Branding =
  LogoURL :: "string option"
  FaviconURL :: "string option"
  Settings :: jmap

record BrandingUniversalLogin =
  Body :: "string option"

record Tenant =
  FriendlyName :: "string option"
  EnabledLocales :: "string list"

text \<open>\<^verbatim>\<open>tenantData\<close> and \<^verbatim>\<open>pageData\<close>, lines 101 to 115.\<close>

record tenantData =
  TenantFriendlyName :: string
  TenantEnabledLocales :: "string list"
  TenantDomain :: string

record pageData =
  Connected :: bool
  AuthenticationProfile :: "Prompt option"
  Branding :: "Branding option"
  Templates :: "BrandingUniversalLogin option"
  Themes :: "BrandingTheme option"
  Tenant :: "tenantData option"
  CustomText :: jmap

section \<open>Document merger\<close>

text \<open>
  \<^verbatim>\<open>mergeMaps\<close>, lines 346 to 375. \<open>merge_base\<close> is the first loop, over the entries
  of \<^verbatim>\<open>map1\<close>, with \<^verbatim>\<open>merged\<close> as the accumulator; \<open>put_pruned\<close> is the assignment
  \<^verbatim>\<open>merged[key] = m\<close> followed by the \<^verbatim>\<open>delete\<close> when \<^verbatim>\<open>m\<close> has length 0;
  \<open>add_missing\<close> is the body of the second loop, over \<^verbatim>\<open>map2\<close>, which tests the key
  against \<^verbatim>\<open>merged\<close>. Go ranges over a map in no fixed order; the resulting map does
  not depend on it, because every key is handled once.
\<close>

definition put_pruned :: "string \<Rightarrow> jmap \<Rightarrow> jmap \<Rightarrow> jmap" where
  "put_pruned key m merged =
     (let merged' = AList.update key (JObj m) merged
      in if length m = 0 then AList.delete key merged' else merged')"

definition add_missing :: "string \<times> json \<Rightarrow> jmap \<Rightarrow> jmap" where
  "add_missing = (\<lambda>(key, value) merged.
     if map_of merged key = None then AList.update key value merged else merged)"

fun mergeMaps :: "jmap \<Rightarrow> jmap \<Rightarrow> jmap"
  and merge_base :: "jmap \<Rightarrow> jmap \<Rightarrow> jmap \<Rightarrow> jmap" where
  "mergeMaps m1 m2 = fold add_missing m2 (merge_base m1 m2 [])"
| "merge_base [] m2 merged = merged"
| "merge_base ((key, value) # rest) m2 merged =
     merge_base rest m2
       (case value of
          JObj subMap \<Rightarrow>
            (case map_of m2 key of
               Some (JObj subMap2) \<Rightarrow> put_pruned key (mergeMaps subMap subMap2) merged
             | _ \<Rightarrow> put_pruned key subMap merged)
        | _ \<Rightarrow>
            (case map_of m2 key of
               Some m2Value \<Rightarrow> AList.update key m2Value merged
             | None \<Rightarrow> AList.update key value merged))"

text \<open>
  What the first loop leaves in \<^verbatim>\<open>merged\<close> for one entry of \<^verbatim>\<open>map1\<close>: \<open>None\<close>
  when the key was deleted again.
\<close>

fun entry_result :: "jmap \<Rightarrow> string \<Rightarrow> json \<Rightarrow> json option" where
  "entry_result m2 key (JObj subMap) =
     (case map_of m2 key of
        Some (JObj subMap2) \<Rightarrow>
          (if mergeMaps subMap subMap2 = [] then None else Some (JObj (mergeMaps subMap subMap2)))
      | _ \<Rightarrow> (if subMap = [] then None else Some (JObj subMap)))"
| "entry_result m2 key value =
     (case map_of m2 key of Some m2Value \<Rightarrow> Some m2Value | None \<Rightarrow> Some value)"

text \<open>
  Leaves. A leaf is a value that is not a nested object, reached through nested objects
  by a path of keys. \<open>leaf_at m p v\<close>: the document \<open>m\<close> holds the leaf \<open>v\<close> at the
  key path \<open>p\<close>. \<open>leaves m\<close> lists all of them. \<open>clash_free m1 m2\<close>: no key path
  holds a nested object in one document and a value that is not an object in the other.
\<close>

fun leaf_at :: "jmap \<Rightarrow> string list \<Rightarrow> json \<Rightarrow> bool" where
  "leaf_at m [] v = False"
| "leaf_at m (k # ks) v =
     (case map_of m k of
        None \<Rightarrow> False
      | Some (JObj sub) \<Rightarrow> leaf_at sub ks v
      | Some x \<Rightarrow> ks = [] \<and> x = v)"

fun leaves :: "jmap \<Rightarrow> (string list \<times> json) list" where
  "leaves m =
     concat (map (\<lambda>(k, v). case v of
                     JObj sub \<Rightarrow> map (\<lambda>(p, x). (k # p, x)) (leaves sub)
                   | _ \<Rightarrow> [([k], v)]) m)"

fun clash_free :: "jmap \<Rightarrow> jmap \<Rightarrow> bool" where
  "clash_free m1 m2 =
     list_all (\<lambda>(k, v). case map_of m2 k of
                 None \<Rightarrow> True
               | Some w \<Rightarrow> (case v of
                     JObj s \<Rightarrow> (case w of JObj t \<Rightarrow> clash_free s t | _ \<Rightarrow> False)
                   | _ \<Rightarrow> \<not> is_object w)) m1"

section \<open>JSON encoding\<close>

text \<open>
  \<^verbatim>\<open>json.Marshal\<close> on a decoded document, as the standard library documents it: compact
  output, object keys sorted bytewise, strings quoted with the control characters, the
  quote, the backslash, \<^verbatim>\<open><\<close>, \<^verbatim>\<open>>\<close>, \<^verbatim>\<open>&\<close> and the line separators U+2028 and
  U+2029 escaped. Strings are byte lists in UTF-8.
\<close>

definition hex_digit :: "nat \<Rightarrow> char" where
  "hex_digit n = ''0123456789abcdef'' ! (n mod 16)"

definition escape_char :: "char \<Rightarrow> string" where
  "escape_char c =
     (if c = CHR 0x22 then [CHR 0x5C, CHR 0x22]
      else if c = CHR 0x5C then [CHR 0x5C, CHR 0x5C]
      else if c = CHR 0x0A then [CHR 0x5C, CHR ''n'']
      else if c = CHR 0x0D then [CHR 0x5C, CHR ''r'']
      else if c = CHR 0x09 then [CHR 0x5C, CHR ''t'']
      else if (of_char c :: nat) < 0x20 \<or> c = CHR ''<'' \<or> c = CHR ''>'' \<or> c = CHR ''&''
        then [CHR 0x5C, CHR ''u'', CHR ''0'', CHR ''0'',
              hex_digit (of_char c div 16), hex_digit (of_char c)]
      else [c])"

fun escape_string :: "string \<Rightarrow> string" where
  "escape_string (c1 # c2 # c3 # cs) =
     (if c1 = CHR 0xE2 \<and> c2 = CHR 0x80 \<and> (c3 = CHR 0xA8 \<or> c3 = CHR 0xA9)
      then [CHR 0x5C, CHR ''u'', CHR ''2'', CHR ''0'', CHR ''2'', hex_digit (of_char c3)]
             @ escape_string cs
      else escape_char c1 @ escape_string (c2 # c3 # cs))"
| "escape_string (c # cs) = escape_char c @ escape_string cs"
| "escape_string [] = []"

definition quote :: "string \<Rightarrow> string" where
  "quote s = [CHR 0x22] @ escape_string s @ [CHR 0x22]"

fun join_commas :: "string list \<Rightarrow> string" where
  "join_commas [] = []"
| "join_commas [x] = x"
| "join_commas (x # y # ys) = x @ '','' @ join_commas (y # ys)"

fun Marshal :: "json \<Rightarrow> string" where
  "Marshal JNull = ''null''"
| "Marshal (JBool b) = (if b then ''true'' else ''false'')"
| "Marshal (JNum lit) = lit"
| "Marshal (JStr s) = quote s"
| "Marshal (JArr xs) = ''['' @ join_commas (map Marshal xs) @ '']''"
| "Marshal (JObj m) =
     ''{'' @ join_commas (map (\<lambda>(k, r). quote k @ '':'' @ r)
                           (sort_key fst (map (\<lambda>(k, v). (k, Marshal v)) m))) @ ''}''"

text \<open>\<^verbatim>\<open>strings.Contains(s, substr)\<close>.\<close>

fun Contains :: "string \<Rightarrow> string \<Rightarrow> bool" where
  "Contains [] substr = (substr = [])"
| "Contains (c # cs) substr = (take (length substr) (c # cs) = substr \<or> Contains cs substr)"

text \<open>
  \<^verbatim>\<open>json.Unmarshal(bytes, &data)\<close> at lines 493 to 497, where \<^verbatim>\<open>bytes\<close> is what
  \<^verbatim>\<open>Marshal\<close> gave for \<^verbatim>\<open>value\<close> and \<^verbatim>\<open>data\<close> is a fresh empty map, written as
  a function of \<^verbatim>\<open>value\<close>: an object decodes to its members, \<^verbatim>\<open>null\<close> leaves the
  map empty, and every other JSON value is a type error.
\<close>

fun unmarshal_object :: "json \<Rightarrow> error + jmap" where
  "unmarshal_object (JObj m) = Inr m"
| "unmarshal_object JNull = Inr []"
| "unmarshal_object (JBool b) =
     Inl (Err ''json: cannot unmarshal bool into Go value of type map[string]interface {}'')"
| "unmarshal_object (JNum lit) =
     Inl (Err ''json: cannot unmarshal number into Go value of type map[string]interface {}'')"
| "unmarshal_object (JStr s) =
     Inl (Err ''json: cannot unmarshal string into Go value of type map[string]interface {}'')"
| "unmarshal_object (JArr xs) =
     Inl (Err ''json: cannot unmarshal array into Go value of type map[string]interface {}'')"

text \<open>The document holds an empty object, at any depth.\<close>

fun has_empty_object :: "json \<Rightarrow> bool" where
  "has_empty_object (JObj m) = (m = [] \<or> list_ex (\<lambda>(k, v). has_empty_object v) m)"
| "has_empty_object (JArr xs) = list_ex has_empty_object xs"
| "has_empty_object _ = False"

section \<open>Fan-out and fan-in\<close>

text \<open>
  An \<^verbatim>\<open>errgroup\<close> runs its functions concurrently and \<^verbatim>\<open>Wait\<close> returns the first
  error any of them returned. The functions of one group here work on different
  variables and different remote resources, so a run is described by the order in which
  they finish. \<open>completion_order order n\<close> makes any list of indices an order of all
  \<open>n\<close> functions: the listed ones first, as listed, then the others in program order.
\<close>

definition completion_order :: "nat list \<Rightarrow> nat \<Rightarrow> nat list" where
  "completion_order order n =
     (let listed = filter (\<lambda>i. i < n) (remdups order)
      in listed @ filter (\<lambda>i. i \<notin> set listed) [0..<n])"

fun first_error :: "error option list \<Rightarrow> error option" where
  "first_error [] = None"
| "first_error (None # rest) = first_error rest"
| "first_error (Some e # rest) = Some e"

definition group_Wait :: "nat list \<Rightarrow> error option list \<Rightarrow> error option" where
  "group_Wait order results =
     first_error (map (\<lambda>i. results ! i) (completion_order order (length results)))"

section \<open>Document aggregator\<close>

text \<open>
  The response of the bulk fetch: its status, and its body as
  \<^verbatim>\<open>json.NewDecoder(response.Body).Decode\<close> reads it into a slice of maps.
\<close>

record http_response =
  StatusCode :: int
  Decoded :: "error + jmap list"

text \<open>
  Modelled from the spec: \<^verbatim>\<open>ensureCustomDomainIsEnabled\<close>,
  \<^verbatim>\<open>fetchBrandingSettingsOrUseDefaults\<close> and \<^verbatim>\<open>fetchBrandingTemplateOrUseEmpty\<close> are
  called at lines 121, 132 and 138 and defined in another file. By section 4.1 the first
  is a precondition check that fails or not (\<open>custom_domain_enabled\<close>), and the other two
  substitute a default instead of failing, so they always give a value
  (\<open>branding_settings_or_defaults\<close>, \<open>branding_template_or_empty\<close>). The other fields
  are what the reads of the management client and of the HTTP client return in one
  aggregation.
\<close>

record read_api =
  custom_domain_enabled :: "error option"
  Prompt_Read :: "error + Prompt"
  branding_settings_or_defaults :: Branding
  branding_template_or_empty :: BrandingUniversalLogin
  BrandingTheme_Default :: "error + BrandingTheme"
  Tenant_Read :: "error + Tenant"
  Prompt_CustomText :: "string \<Rightarrow> string \<Rightarrow> error + jmap"
  HTTPClient_NewRequest :: "string \<Rightarrow> error option"
  HTTPClient_Do :: "string \<Rightarrow> error + http_response"

text \<open>The literal of lines 184 to 257.\<close>

definition default_theme :: BrandingTheme where
  "default_theme = \<lparr>
     ID = None,
     DisplayName = None,
     Borders = \<lparr>
       ButtonBorderRadius = 3,
       ButtonBorderWeight = 1,
       ButtonsStyle = ''rounded'',
       InputBorderRadius = 3,
       InputBorderWeight = 1,
       InputsStyle = ''rounded'',
       ShowWidgetShadow = True,
       WidgetBorderWeight = 0,
       WidgetCornerRadius = 5 \<rparr>,
     Colors = \<lparr>
       BaseFocusColor = Some ''#635dff'',
       BaseHoverColor = Some ''#000000'',
       BodyText = ''#1e212a'',
       Error = ''#d03c38'',
       Header = ''#1e212a'',
       Icons = ''#65676e'',
       InputBackground = ''#ffffff'',
       InputBorder = ''#c9cace'',
       InputFilledText = ''#000000'',
       InputLabelsPlaceholders = ''#65676e'',
       LinksFocusedComponents = ''#635dff'',
       PrimaryButton = ''#635dff'',
       PrimaryButtonLabel = ''#ffffff'',
       SecondaryButtonBorder = ''#c9cace'',
       SecondaryButtonLabel = ''#1e212a'',
       Success = ''#13a688'',
       WidgetBackground = ''#ffffff'',
       WidgetBorder = ''#c9cace'' \<rparr>,
     Fonts = \<lparr>
       FontsBodyText = \<lparr> Bold = False, Size = 87.5 \<rparr>,
       ButtonsText = \<lparr> Bold = False, Size = 100.0 \<rparr>,
       FontURL = '''',
       InputLabels = \<lparr> Bold = False, Size = 100.0 \<rparr>,
       Links = \<lparr> Bold = True, Size = 87.5 \<rparr>,
       LinksStyle = ''normal'',
       ReferenceTextSize = 16.0,
       Subtitle = \<lparr> Bold = False, Size = 87.5 \<rparr>,
       Title = \<lparr> Bold = False, Size = 150.0 \<rparr> \<rparr>,
     PageBackground = \<lparr>
       BackgroundColor = ''#000000'',
       BackgroundImageURL = '''',
       PageLayout = ''center'' \<rparr>,
     Widget = \<lparr>
       HeaderTextAlignment = ''center'',
       LogoHeight = 52.0,
       LogoPosition = ''center'',
       WidgetLogoURL = '''',
       SocialButtonsLayout = ''bottom'' \<rparr> \<rparr>"

text \<open>\<^verbatim>\<open>fetchBrandingThemeOrUseEmpty\<close>, lines 181 to 261.\<close>

definition fetchBrandingThemeOrUseEmpty :: "read_api \<Rightarrow> BrandingTheme" where
  "fetchBrandingThemeOrUseEmpty api =
     (case BrandingTheme_Default api of
        Inl err \<Rightarrow> default_theme
      | Inr currentTheme \<Rightarrow> currentTheme)"

text \<open>
  \<^verbatim>\<open>fetchCustomTextWithDefaults\<close>, lines 263 to 344. It returns a pair of a map and an
  error, and on some paths both are set, so the result is a pair of options.
  \<open>read_prompts\<close> is the loop of lines 276 to 283; \<open>pick_login\<close> is the inner loop of
  lines 311 to 340, which keeps the entry under the key \<^verbatim>\<open>login\<close> if the map has one.
\<close>

definition availablePrompts :: "string list" where
  "availablePrompts = [''login'']"

definition language :: string where
  "language = ''en''"

definition prompts_url :: string where
  "prompts_url =
     ''https://cdn.auth0.com/ulp/react-components/development/languages/'' @ language
       @ ''/prompts.json''"

fun read_prompts :: "read_api \<Rightarrow> string list \<Rightarrow> jmap \<Rightarrow> error + jmap" where
  "read_prompts api [] customText = Inr customText"
| "read_prompts api (availablePrompt # rest) customText =
     (case Prompt_CustomText api availablePrompt language of
        Inl err \<Rightarrow> Inl err
      | Inr promptText \<Rightarrow>
          read_prompts api rest (AList.update availablePrompt (JObj promptText) customText))"

definition pick_login :: "jmap \<Rightarrow> jmap \<Rightarrow> jmap" where
  "pick_login v defaultText =
     (case map_of v ''login'' of
        Some innerValue \<Rightarrow> AList.update ''login'' innerValue defaultText
      | None \<Rightarrow> defaultText)"

definition fetchCustomTextWithDefaults :: "read_api \<Rightarrow> jmap option \<times> error option" where
  "fetchCustomTextWithDefaults api =
     (case read_prompts api availablePrompts [] of
        Inl err \<Rightarrow> (None, Some err)
      | Inr customText \<Rightarrow>
          (case HTTPClient_NewRequest api prompts_url of
             Some err \<Rightarrow> (Some customText, Some err)
           | None \<Rightarrow>
               (case HTTPClient_Do api prompts_url of
                  Inl err \<Rightarrow> (Some customText, Some err)
                | Inr response \<Rightarrow>
                    if StatusCode response \<ge> 400 then (Some customText, None)
                    else (case Decoded response of
                            Inl err \<Rightarrow> (Some customText, Some err)
                          | Inr defaultAllPromptsText \<Rightarrow>
                              (Some (mergeMaps (fold pick_login defaultAllPromptsText [])
                                               customText), None)))))"

fun error_of :: "error + 'a \<Rightarrow> error option" where
  "error_of (Inl err) = Some err"
| "error_of (Inr _) = None"

fun pointer_of :: "error + 'a \<Rightarrow> 'a option" where
  "pointer_of (Inl _) = None"
| "pointer_of (Inr x) = Some x"

fun GetFriendlyName :: "Tenant option \<Rightarrow> string" where
  "GetFriendlyName (Some t) = (case FriendlyName t of Some s \<Rightarrow> s | None \<Rightarrow> [])"
| "GetFriendlyName None = []"

fun GetEnabledLocales :: "Tenant option \<Rightarrow> string list" where
  "GetEnabledLocales (Some t) = EnabledLocales t"
| "GetEnabledLocales None = []"

text \<open>
  \<^verbatim>\<open>fetchPageData\<close>, lines 117 to 179: seven functions in one group, in program order
  the feature check, the profile, the branding settings, the template, the theme, the
  tenant and the custom text. \<open>order\<close> is the order in which they finish.
\<close>

definition fetchPageData :: "read_api \<Rightarrow> string \<Rightarrow> nat list \<Rightarrow> error + pageData" where
  "fetchPageData api tenantDomain order =
     (let authenticationProfile = pointer_of (Prompt_Read api);
          brandingSettings = branding_settings_or_defaults api;
          currentTemplate = branding_template_or_empty api;
          currentTheme = fetchBrandingThemeOrUseEmpty api;
          tenant = pointer_of (Tenant_Read api);
          (customText, customTextErr) = fetchCustomTextWithDefaults api
      in case group_Wait order
                [custom_domain_enabled api, error_of (Prompt_Read api), None, None, None,
                 error_of (Tenant_Read api), customTextErr] of
           Some err \<Rightarrow> Inl err
         | None \<Rightarrow> Inr \<lparr>
             Connected = True,
             AuthenticationProfile = authenticationProfile,
             Branding = Some brandingSettings,
             Templates = Some currentTemplate,
             Themes = Some currentTheme,
             Tenant = Some \<lparr>
               TenantFriendlyName = GetFriendlyName tenant,
               TenantEnabledLocales = GetEnabledLocales tenant,
               TenantDomain = tenantDomain \<rparr>,
             CustomText = (case customText of Some m \<Rightarrow> m | None \<Rightarrow> []) \<rparr>)"

section \<open>Remote gateway\<close>

text \<open>
  The remote service behind the management client, as far as persistence uses it: one
  stored value per sub-resource. \<open>faults\<close> says which operations fail in a run, and with
  which error. A write that fails leaves the stored value as it was; a write that
  succeeds replaces it. The service gives a created theme its identifier
  (\<open>new_theme_id\<close>).
\<close>

datatype operation =
    SetUniversalLogin
  | ThemeDefault
  | ThemeCreate
  | ThemeUpdate
  | PromptUpdate
  | BrandingUpdate
  | SetCustomText string

record remote =
  r_template :: "string option"
  r_theme :: "BrandingTheme option"
  r_prompt :: "Prompt option"
  r_branding :: "Branding option"
  r_custom_text :: "((string \<times> string) \<times> jmap) list"

type_synonym faults = "operation \<Rightarrow> error option"

definition new_theme_id :: string where
  "new_theme_id = ''theme_1''"

definition Branding_SetUniversalLogin ::
    "faults \<Rightarrow> BrandingUniversalLogin \<Rightarrow> remote \<Rightarrow> error option \<times> remote" where
  "Branding_SetUniversalLogin f ul r =
     (case f SetUniversalLogin of
        Some err \<Rightarrow> (Some err, r)
      | None \<Rightarrow> (None, r\<lparr>r_template := Body ul\<rparr>))"

definition BrandingTheme_Read_Default :: "faults \<Rightarrow> remote \<Rightarrow> error + BrandingTheme" where
  "BrandingTheme_Read_Default f r =
     (case f ThemeDefault of
        Some err \<Rightarrow> Inl err
      | None \<Rightarrow> (case r_theme r of
                   None \<Rightarrow> Inl (Err ''404 Not Found'')
                 | Some t \<Rightarrow> Inr t))"

definition BrandingTheme_Create ::
    "faults \<Rightarrow> BrandingTheme \<Rightarrow> remote \<Rightarrow> error option \<times> remote" where
  "BrandingTheme_Create f t r =
     (case f ThemeCreate of
        Some err \<Rightarrow> (Some err, r)
      | None \<Rightarrow> (None, r\<lparr>r_theme := Some (t\<lparr>ID := Some new_theme_id\<rparr>)\<rparr>))"

definition BrandingTheme_Update ::
    "faults \<Rightarrow> string \<Rightarrow> BrandingTheme \<Rightarrow> remote \<Rightarrow> error option \<times> remote" where
  "BrandingTheme_Update f i t r =
     (case f ThemeUpdate of
        Some err \<Rightarrow> (Some err, r)
      | None \<Rightarrow> (None, r\<lparr>r_theme := Some (t\<lparr>ID := Some i\<rparr>)\<rparr>))"

definition Prompt_Update ::
    "faults \<Rightarrow> Prompt option \<Rightarrow> remote \<Rightarrow> error option \<times> remote" where
  "Prompt_Update f p r =
     (case f PromptUpdate of
        Some err \<Rightarrow> (Some err, r)
      | None \<Rightarrow> (None, r\<lparr>r_prompt := p\<rparr>))"

definition Branding_Update ::
    "faults \<Rightarrow> Branding \<Rightarrow> remote \<Rightarrow> error option \<times> remote" where
  "Branding_Update f b r =
     (case f BrandingUpdate of
        Some err \<Rightarrow> (Some err, r)
      | None \<Rightarrow> (None, r\<lparr>r_branding := Some b\<rparr>))"

definition Prompt_SetCustomText ::
    "faults \<Rightarrow> string \<Rightarrow> string \<Rightarrow> jmap \<Rightarrow> remote \<Rightarrow> error option \<times> remote" where
  "Prompt_SetCustomText f p lang body r =
     (case f (SetCustomText p) of
        Some err \<Rightarrow> (Some err, r)
      | None \<Rightarrow> (None, r\<lparr>r_custom_text := AList.update (p, lang) body (r_custom_text r)\<rparr>))"

fun GetID :: "BrandingTheme \<Rightarrow> string" where
  "GetID t = (case ID t of Some i \<Rightarrow> i | None \<Rightarrow> [])"

section \<open>Document persister\<close>

text \<open>
  \<^verbatim>\<open>persistData\<close>, lines 449 to 508. The group holds four functions and one more for
  every entry of the custom text, named here by \<open>job\<close>. A function that dereferences a
  nil pointer panics, which ends the process: \<open>Panic\<close>. \<open>custom_text_action\<close> is the
  body of lines 484 to 503 up to the call of the gateway.
\<close>

datatype entry_action = Skip | Fail error | Write string string jmap

definition custom_text_action :: "string \<Rightarrow> json \<Rightarrow> entry_action" where
  "custom_text_action key value =
     (let bytes = Marshal value
      in if Contains bytes ''{}'' then Skip
         else (case unmarshal_object value of
                 Inl err \<Rightarrow> Fail err
               | Inr data \<Rightarrow>
                   if length data = 0 then Skip else Write key ''en'' data))"

datatype outcome = Panic | Done "error option"

datatype job =
    TemplateJob
  | ThemeJob
  | ProfileJob
  | BrandingJob
  | CustomTextJob string json

fun returned :: "error option \<times> remote \<Rightarrow> outcome \<times> remote" where
  "returned (err, r) = (Done err, r)"

fun run_job :: "faults \<Rightarrow> pageData \<Rightarrow> job \<Rightarrow> remote \<Rightarrow> outcome \<times> remote" where
  "run_job f data TemplateJob r =
     (case Templates data of
        None \<Rightarrow> (Panic, r)
      | Some t \<Rightarrow> returned (Branding_SetUniversalLogin f \<lparr>Body = Body t\<rparr> r))"
| "run_job f data ThemeJob r =
     (case Themes data of
        None \<Rightarrow> (Panic, r)
      | Some t \<Rightarrow>
          (let themes = t\<lparr>ID := None\<rparr>
           in case BrandingTheme_Read_Default f r of
                Inl err \<Rightarrow> returned (BrandingTheme_Create f themes r)
              | Inr existingTheme \<Rightarrow>
                  returned (BrandingTheme_Update f (GetID existingTheme) themes r)))"
| "run_job f data ProfileJob r =
     returned (Prompt_Update f (AuthenticationProfile data) r)"
| "run_job f data BrandingJob r =
     (case Branding data of
        None \<Rightarrow> (Panic, r)
      | Some b \<Rightarrow> returned (Branding_Update f (b\<lparr>LogoURL := None\<rparr>) r))"
| "run_job f data (CustomTextJob key value) r =
     (case custom_text_action key value of
        Skip \<Rightarrow> (Done None, r)
      | Fail err \<Rightarrow> (Done (Some err), r)
      | Write p lang body \<Rightarrow> returned (Prompt_SetCustomText f p lang body r))"

text \<open>
  The group: the jobs in the order in which they finish, the first error kept, every
  job run whatever the others returned; a panic ends the run.
\<close>

fun run_group ::
    "faults \<Rightarrow> pageData \<Rightarrow> job list \<Rightarrow> error option \<Rightarrow> remote \<Rightarrow> outcome \<times> remote" where
  "run_group f data [] first r = (Done first, r)"
| "run_group f data (t # rest) first r =
     (case run_job f data t r of
        (Panic, r') \<Rightarrow> (Panic, r')
      | (Done err, r') \<Rightarrow>
          run_group f data rest (if first = None then err else first) r')"

definition persist_jobs :: "pageData \<Rightarrow> job list" where
  "persist_jobs data =
     [TemplateJob, ThemeJob, ProfileJob, BrandingJob]
       @ map (\<lambda>(key, value). CustomTextJob key value) (CustomText data)"

definition scheduled :: "nat list \<Rightarrow> pageData \<Rightarrow> job list" where
  "scheduled order data =
     map (\<lambda>i. persist_jobs data ! i) (completion_order order (length (persist_jobs data)))"

definition persistData :: "faults \<Rightarrow> nat list \<Rightarrow> pageData \<Rightarrow> remote \<Rightarrow> outcome \<times> remote" where
  "persistData f order data r = run_group f data (scheduled order data) None r"

text \<open>
  The error a job returns, read off the document, the faults and the remote state before
  the call: the theme job is the only one that reads the remote state, and the only one
  that writes what it reads.
\<close>

fun job_error :: "faults \<Rightarrow> pageData \<Rightarrow> remote \<Rightarrow> job \<Rightarrow> error option" where
  "job_error f data r0 t =
     (case fst (run_job f data t r0) of Panic \<Rightarrow> None | Done err \<Rightarrow> err)"

section \<open>Session channel server\<close>

text \<open>
  The origin check of lines 388 to 399. \<^verbatim>\<open>url.Parse\<close> and \<^verbatim>\<open>(*URL).String\<close> belong
  to the standard library and are parameters.
\<close>

definition CheckOrigin :: "(string \<Rightarrow> 'u option) \<Rightarrow> ('u \<Rightarrow> string) \<Rightarrow> string list \<Rightarrow> bool" where
  "CheckOrigin url_Parse url_String origin =
     (if length origin = 0 then True
      else (case url_Parse (hd origin) of
              None \<Rightarrow> False
            | Some u \<Rightarrow> url_String u = ''http://localhost:5173''))"

text \<open>
  The handler, lines 402 to 447, as the list of what it does. \<open>ReadJSON\<close> holds what
  the successive reads return while the connection is open; when the connection has
  been closed by the handler, or the peer has nothing more to send and goes away, the
  read returns an error. \<open>persist\<close> is \<^verbatim>\<open>persistData\<close> applied to the request context
  and the API, with the state it works on.
\<close>

datatype event =
    Log string
  | Cancel
  | WriteJSON pageData
  | Close
  | DisconnectedNotice
  | UpdatedNotice
  | PersistCall pageData
  | Crash

record connection =
  Origin :: "string list"
  Upgrade_err :: "error option"
  WriteJSON_err :: "error option"
  Close_err :: "error option"
  ReadJSON :: "(error + pageData) list"

fun receive_loop ::
    "(pageData \<Rightarrow> 's \<Rightarrow> outcome \<times> 's) \<Rightarrow> error option \<Rightarrow> bool \<Rightarrow> (error + pageData) list
       \<Rightarrow> 's \<Rightarrow> event list \<times> 's" where
  "receive_loop persist close_err conn_closed [] st =
     ([Log ''error reading from WebSocket'', Cancel], st)"
| "receive_loop persist close_err conn_closed (Inl err # rest) st =
     ([Log ''error reading from WebSocket'', Cancel], st)"
| "receive_loop persist close_err conn_closed (Inr msg # rest) st =
     (if conn_closed then ([Log ''error reading from WebSocket'', Cancel], st)
      else
        (let disconnect =
               (if \<not> Connected msg
                then [Close]
                     @ (case close_err of
                          Some err \<Rightarrow> [Log ''error closing WebSocket'', Cancel]
                        | None \<Rightarrow> [])
                     @ [DisconnectedNotice, Cancel]
                else [])
         in case persist msg st of
              (Panic, st') \<Rightarrow> (disconnect @ [PersistCall msg, Crash], st')
            | (Done (Some err), st') \<Rightarrow>
                (disconnect @ [PersistCall msg, Log ''error persisting data'', Cancel], st')
            | (Done None, st') \<Rightarrow>
                (let (events, st'') =
                       receive_loop persist close_err (conn_closed \<or> \<not> Connected msg) rest st'
                 in (disconnect @ [PersistCall msg, UpdatedNotice] @ events, st''))))"

definition ServeHTTP ::
    "(string \<Rightarrow> 'u option) \<Rightarrow> ('u \<Rightarrow> string) \<Rightarrow> (pageData \<Rightarrow> 's \<Rightarrow> outcome \<times> 's)
       \<Rightarrow> pageData \<Rightarrow> connection \<Rightarrow> 's \<Rightarrow> event list \<times> 's" where
  "ServeHTTP url_Parse url_String persist sentData c st =
     (if \<not> CheckOrigin url_Parse url_String (Origin c) \<or> Upgrade_err c \<noteq> None
      then ([Log ''error accepting WebSocket connection''], st)
      else (case WriteJSON_err c of
              Some err \<Rightarrow> ([Log ''failed to write message'', Cancel], st)
            | None \<Rightarrow>
                (let (events, st') = receive_loop persist (Close_err c) False (ReadJSON c) st
                 in (WriteJSON sentData # events, st'))))"

section \<open>Sub-resources and example values\<close>

text \<open>
  The sub-resource a job writes, and what the remote side stores for it. The custom
  text of a prompt area is stored per language; persistence writes the fixed language.
\<close>

datatype resource =
    TemplateResource
  | ThemeResource
  | ProfileResource
  | BrandingResource
  | CustomTextResource string

datatype stored_value =
    StoredTemplate "string option"
  | StoredTheme "BrandingTheme option"
  | StoredProfile "Prompt option"
  | StoredBranding "Branding option"
  | StoredText "jmap option"

fun resource_of :: "job \<Rightarrow> resource" where
  "resource_of TemplateJob = TemplateResource"
| "resource_of ThemeJob = ThemeResource"
| "resource_of ProfileJob = ProfileResource"
| "resource_of BrandingJob = BrandingResource"
| "resource_of (CustomTextJob key value) = CustomTextResource key"

fun stored :: "resource \<Rightarrow> remote \<Rightarrow> stored_value" where
  "stored TemplateResource r = StoredTemplate (r_template r)"
| "stored ThemeResource r = StoredTheme (r_theme r)"
| "stored ProfileResource r = StoredProfile (r_prompt r)"
| "stored BrandingResource r = StoredBranding (r_branding r)"
| "stored (CustomTextResource key) r = StoredText (map_of (r_custom_text r) (key, ''en''))"

fun panics :: "pageData \<Rightarrow> job \<Rightarrow> bool" where
  "panics data TemplateJob = (Templates data = None)"
| "panics data ThemeJob = (Themes data = None)"
| "panics data BrandingJob = (Branding data = None)"
| "panics data _ = False"

text \<open>Values for the examples below.\<close>

definition no_faults :: faults where
  "no_faults = (\<lambda>_. None)"

definition empty_remote :: remote where
  "empty_remote = \<lparr> r_template = None, r_theme = None, r_prompt = None,
     r_branding = None, r_custom_text = [] \<rparr>"

definition example_profile :: Prompt where
  "example_profile = \<lparr> UniversalLoginExperience = ''new'',
     IdentifierFirst = Some False, WebAuthnPlatformFirstFactor = None \<rparr>"

definition example_branding :: Branding where
  "example_branding = \<lparr> LogoURL = Some ''https://example.com/logo.png'',
     FaviconURL = None, Settings = [] \<rparr>"

definition example_document :: pageData where
  "example_document = \<lparr>
     Connected = True,
     AuthenticationProfile = Some example_profile,
     Branding = Some example_branding,
     Templates = Some \<lparr> Body = Some ''<html></html>'' \<rparr>,
     Themes = Some default_theme,
     Tenant = Some \<lparr> TenantFriendlyName = ''Example'', TenantEnabledLocales = [''en''],
       TenantDomain = ''example.auth0.com'' \<rparr>,
     CustomText = [(''login'', JObj [(''login'', JObj [(''title'', JStr ''Welcome'')])])] \<rparr>"

definition example_api :: read_api where
  "example_api = \<lparr>
     custom_domain_enabled = None,
     Prompt_Read = Inr example_profile,
     branding_settings_or_defaults = example_branding,
     branding_template_or_empty = \<lparr> Body = None \<rparr>,
     BrandingTheme_Default = Inl (Err ''404 Not Found''),
     Tenant_Read = Inr \<lparr> FriendlyName = Some ''Example'', EnabledLocales = [''en''] \<rparr>,
     Prompt_CustomText = (\<lambda>p l. Inr [(''login'', JObj [(''title'', JStr ''Sign in'')])]),
     HTTPClient_NewRequest = (\<lambda>url. None),
     HTTPClient_Do = (\<lambda>url. Inr \<lparr> StatusCode = 200,
       Decoded = Inr [[(''login'', JObj [(''login'', JObj [(''title'', JStr ''Default''),
                                                       (''subtitle'', JStr ''Welcome'')])])]] \<rparr>) \<rparr>"

section \<open>Properties of the merger\<close>

lemma add_missing_lookup:
  "map_of (add_missing (a, b) acc) k =
     (case map_of acc k of Some v \<Rightarrow> Some v | None \<Rightarrow> if k = a then Some b else None)"
  by (simp add: add_missing_def update_conv' split: option.splits)

lemma second_loop_lookup:
  "map_of (fold add_missing m2 acc) k
   = (case map_of acc k of Some v \<Rightarrow> Some v | None \<Rightarrow> map_of m2 k)"
proof (induction m2 arbitrary: acc)
  case Nil
  then show ?case by (simp split: option.splits)
next
  case (Cons x m2)
  obtain a b where x: "x = (a, b)" by (cases x)
  show ?case
    by (simp add: Cons.IH x add_missing_lookup split: option.splits)
qed

lemma put_pruned_lookup:
  "map_of (put_pruned a m acc) k =
     (if k = a then (if m = [] then None else Some (JObj m)) else map_of acc k)"
  by (simp add: put_pruned_def Let_def update_conv' delete_conv')

lemma merge_step_lookup:
  "map_of (case value of
          JObj subMap \<Rightarrow>
            (case map_of m2 a of
               Some (JObj subMap2) \<Rightarrow> put_pruned a (mergeMaps subMap subMap2) acc
             | _ \<Rightarrow> put_pruned a subMap acc)
        | _ \<Rightarrow>
            (case map_of m2 a of
               Some m2Value \<Rightarrow> AList.update a m2Value acc
             | None \<Rightarrow> AList.update a value acc)) k
   = (if k = a then entry_result m2 a value else map_of acc k)"
  by (cases "value"; simp add: put_pruned_lookup update_conv' split: option.splits json.splits)

lemma merge_base_lookup:
  "distinct (map fst m1) \<Longrightarrow>
   map_of (merge_base m1 m2 acc) k =
     (case map_of m1 k of None \<Rightarrow> map_of acc k | Some v \<Rightarrow> entry_result m2 k v)"
proof (induction m1 arbitrary: acc)
  case Nil
  then show ?case by simp
next
  case (Cons x m1)
  obtain a v where x: "x = (a, v)" by (cases x)
  from Cons.prems x have notin: "map_of m1 a = None" and d: "distinct (map fst m1)"
    by (auto simp: map_of_eq_None_iff)
  show ?case
    unfolding x merge_base.simps Cons.IH [OF d] merge_step_lookup
    using notin by (auto split: option.splits)
qed

lemma mergeMaps_lookup:
  "distinct (map fst m1) \<Longrightarrow>
   map_of (mergeMaps m1 m2) k =
     (case map_of m1 k of
        None \<Rightarrow> map_of m2 k
      | Some v \<Rightarrow> (case entry_result m2 k v of None \<Rightarrow> map_of m2 k | Some r \<Rightarrow> Some r))"
  by (simp add: second_loop_lookup merge_base_lookup split: option.splits)

lemma wf_map_distinct: "wf_map m \<Longrightarrow> distinct (map fst m)"
  by (simp add: wf_map_def)

lemma wf_map_sub:
  assumes "wf_map m" and "map_of m k = Some (JObj s)"
  shows "wf_map s"
proof -
  from assms(2) have "(k, JObj s) \<in> set m" by (rule map_of_SomeD)
  with assms(1) have "wf_json (JObj s)"
    unfolding wf_map_def by (fastforce simp: list_all_iff)
  then show ?thesis by (simp add: wf_map_def)
qed

lemma clash_freeD:
  assumes "clash_free m1 m2" and "map_of m1 k = Some v" and "map_of m2 k = Some w"
  shows "case v of JObj s \<Rightarrow> (case w of JObj t \<Rightarrow> clash_free s t | _ \<Rightarrow> False)
            | _ \<Rightarrow> \<not> is_object w"
proof -
  from assms(2) have "(k, v) \<in> set m1" by (rule map_of_SomeD)
  moreover from assms(1) have "\<forall>(k, v) \<in> set m1. case map_of m2 k of
                 None \<Rightarrow> True
               | Some w \<Rightarrow> (case v of
                     JObj s \<Rightarrow> (case w of JObj t \<Rightarrow> clash_free s t | _ \<Rightarrow> False)
                   | _ \<Rightarrow> \<not> is_object w)"
    by (subst (asm) clash_free.simps) (simp add: list_all_iff)
  ultimately show ?thesis using assms(3) by fastforce
qed

lemma leaf_at_Nil_map [simp]: "\<not> leaf_at [] p v"
  by (cases p) simp_all

lemma override_leaf_kept:
  "wf_map m1 \<Longrightarrow> clash_free m1 m2 \<Longrightarrow> leaf_at m2 p v \<Longrightarrow> leaf_at (mergeMaps m1 m2) p v"
proof (induction p arbitrary: m1 m2)
  case Nil
  then show ?case by simp
next
  case (Cons k ks)
  note d = wf_map_distinct [OF Cons.prems(1)]
  from Cons.prems(3) obtain w where w: "map_of m2 k = Some w"
    by (auto split: option.splits)
  show ?case
  proof (cases "map_of m1 k")
    case None
    with Cons.prems(3) w show ?thesis
      by (simp add: mergeMaps_lookup [OF d] del: mergeMaps.simps)
  next
    case (Some x)
    note cf = clash_freeD [OF Cons.prems(2) Some w]
    show ?thesis
    proof (cases w)
      case (JObj t)
      with cf obtain s where x: "x = JObj s" and cst: "clash_free s t"
        by (cases x) auto
      from Cons.prems(3) w JObj have lt: "leaf_at t ks v" by simp
      have "leaf_at (mergeMaps s t) ks v"
        using Cons.IH [OF wf_map_sub [OF Cons.prems(1)] cst lt] Some x by simp
      with lt show ?thesis
        using Some x w JObj by (simp add: mergeMaps_lookup [OF d] del: mergeMaps.simps)
    qed (use cf Cons.prems(3) w Some in
          \<open>cases x; simp add: mergeMaps_lookup [OF d] del: mergeMaps.simps\<close>)+
  qed
qed

lemma leaf_at_nonempty: "leaf_at m p v \<Longrightarrow> m \<noteq> []"
  by (cases p) auto

lemma leaf_at_Cons_None: "map_of m k = None \<Longrightarrow> \<not> leaf_at m (k # ks) v"
  by simp

lemma leaf_at_Cons_obj: "map_of m k = Some (JObj s) \<Longrightarrow> leaf_at m (k # ks) v = leaf_at s ks v"
  by simp

lemma leaf_at_Cons_scalar:
  "map_of m k = Some x \<Longrightarrow> \<not> is_object x \<Longrightarrow> leaf_at m (k # ks) v = (ks = [] \<and> x = v)"
  by (cases x) simp_all

lemma entry_result_scalar:
  "\<not> is_object x \<Longrightarrow>
   entry_result m2 k x = (case map_of m2 k of Some y \<Rightarrow> Some y | None \<Rightarrow> Some x)"
  by (cases x) (simp_all split: option.splits)

lemma is_objectE: "is_object x \<Longrightarrow> (\<And>s. x = JObj s \<Longrightarrow> P) \<Longrightarrow> P"
  by (cases x) simp_all

lemma mergeMaps_lookup_scalar:
  assumes "distinct (map fst m1)" and "map_of m1 k = Some x" and "\<not> is_object x"
  shows "map_of (mergeMaps m1 m2) k =
           (case map_of m2 k of Some y \<Rightarrow> Some y | None \<Rightarrow> Some x)"
  by (simp only: mergeMaps_lookup [OF assms(1)] assms(2) entry_result_scalar [OF assms(3)]
        option.case split: option.splits) simp

lemma mergeMaps_lookup_absent:
  assumes "distinct (map fst m1)" and "map_of m1 k = None"
  shows "map_of (mergeMaps m1 m2) k = map_of m2 k"
  by (simp only: mergeMaps_lookup [OF assms(1)] assms(2) option.case)

lemma mergeMaps_lookup_objects:
  assumes "distinct (map fst m1)" and "map_of m1 k = Some (JObj s)"
    and "map_of m2 k = Some (JObj t)"
  shows "map_of (mergeMaps m1 m2) k =
           (if mergeMaps s t = [] then Some (JObj t) else Some (JObj (mergeMaps s t)))"
  by (simp only: mergeMaps_lookup [OF assms(1)] assms(2,3) entry_result.simps option.case
        json.case split: if_splits) simp_all

lemma mergeMaps_lookup_base_object:
  assumes "distinct (map fst m1)" and "map_of m1 k = Some (JObj s)"
    and "\<forall>y. map_of m2 k = Some y \<longrightarrow> \<not> is_object y"
  shows "map_of (mergeMaps m1 m2) k = (if s = [] then map_of m2 k else Some (JObj s))"
proof (cases "map_of m2 k")
  case None
  then show ?thesis
    by (simp only: mergeMaps_lookup [OF assms(1)] assms(2) entry_result.simps option.case
          split: if_splits) simp_all
next
  case (Some y)
  with assms(3) have "\<not> is_object y" by simp
  then have "entry_result m2 k (JObj s) = (if s = [] then None else Some (JObj s))"
    using Some by (cases y) simp_all
  then show ?thesis
    unfolding mergeMaps_lookup [OF assms(1)] assms(2) Some
    by (simp del: entry_result.simps mergeMaps.simps)
qed

declare mergeMaps.simps [simp del] leaf_at.simps(2) [simp del]

lemma base_leaf_kept:
  "wf_map m1 \<Longrightarrow> clash_free m1 m2 \<Longrightarrow> leaf_at m1 p v \<Longrightarrow> \<forall>w. \<not> leaf_at m2 p w \<Longrightarrow>
   leaf_at (mergeMaps m1 m2) p v"
proof (induction p arbitrary: m1 m2)
  case Nil
  then show ?case by simp
next
  case (Cons k ks)
  note d = wf_map_distinct [OF Cons.prems(1)]
  from Cons.prems(3) obtain x where x: "map_of m1 k = Some x"
    by (cases "map_of m1 k") (simp_all add: leaf_at_Cons_None)
  show ?case
  proof (cases "is_object x")
    case True
    then obtain s where xs: "x = JObj s" by (rule is_objectE)
    from Cons.prems(3) x xs have ls: "leaf_at s ks v" by (simp add: leaf_at_Cons_obj)
    then have sne: "s \<noteq> []" by (rule leaf_at_nonempty)
    show ?thesis
    proof (cases "\<exists>t. map_of m2 k = Some (JObj t)")
      case True
      then obtain t where t: "map_of m2 k = Some (JObj t)" by blast
      from clash_freeD [OF Cons.prems(2) x t] xs have cst: "clash_free s t" by simp
      from Cons.prems(4) t have "\<forall>u. \<not> leaf_at t ks u" by (simp add: leaf_at_Cons_obj)
      from Cons.IH [OF wf_map_sub [OF Cons.prems(1)] cst ls this] x xs
      have lm: "leaf_at (mergeMaps s t) ks v" by simp
      then have "mergeMaps s t \<noteq> []" by (rule leaf_at_nonempty)
      with lm show ?thesis
        using mergeMaps_lookup_objects [OF d x [unfolded xs] t]
        by (simp add: leaf_at_Cons_obj)
    next
      case False
      then have "\<forall>y. map_of m2 k = Some y \<longrightarrow> \<not> is_object y"
        by (auto elim: is_objectE)
      from mergeMaps_lookup_base_object [OF d x [unfolded xs] this] sne ls
      show ?thesis by (simp add: leaf_at_Cons_obj)
    qed
  next
    case False
    with Cons.prems(3) x have ks: "ks = []" and v: "x = v"
      by (simp_all add: leaf_at_Cons_scalar)
    show ?thesis
    proof (cases "map_of m2 k")
      case None
      with mergeMaps_lookup_scalar [OF d x False, of m2] False ks v show ?thesis
        by (simp add: leaf_at_Cons_scalar)
    next
      case (Some w)
      from clash_freeD [OF Cons.prems(2) x Some] False have "\<not> is_object w"
        by (cases x) simp_all
      with Some ks have "leaf_at m2 (k # ks) w" by (simp add: leaf_at_Cons_scalar)
      with Cons.prems(4) show ?thesis by blast
    qed
  qed
qed

lemma overlapping_leaf_override:
  "wf_map m1 \<Longrightarrow> leaf_at m1 p v \<Longrightarrow> leaf_at m2 p w \<Longrightarrow> leaf_at (mergeMaps m1 m2) p w"
proof (induction p arbitrary: m1 m2)
  case Nil
  then show ?case by simp
next
  case (Cons k ks)
  note d = wf_map_distinct [OF Cons.prems(1)]
  from Cons.prems(2) obtain x where x: "map_of m1 k = Some x"
    by (cases "map_of m1 k") (simp_all add: leaf_at_Cons_None)
  from Cons.prems(3) obtain y where y: "map_of m2 k = Some y"
    by (cases "map_of m2 k") (simp_all add: leaf_at_Cons_None)
  show ?case
  proof (cases "is_object x")
    case True
    then obtain s where xs: "x = JObj s" by (rule is_objectE)
    from Cons.prems(2) x xs have ls: "leaf_at s ks v" by (simp add: leaf_at_Cons_obj)
    then have ksne: "ks \<noteq> []" by auto
    have "is_object y"
    proof (rule ccontr)
      assume "\<not> is_object y"
      with Cons.prems(3) y ksne show False by (simp add: leaf_at_Cons_scalar)
    qed
    then obtain t where yt: "y = JObj t" by (rule is_objectE)
    from Cons.prems(3) y yt have lt: "leaf_at t ks w" by (simp add: leaf_at_Cons_obj)
    from Cons.IH [OF wf_map_sub [OF Cons.prems(1)] ls lt] x xs
    have lm: "leaf_at (mergeMaps s t) ks w" by simp
    then have "mergeMaps s t \<noteq> []" by (rule leaf_at_nonempty)
    with lm show ?thesis
      using mergeMaps_lookup_objects [OF d x [unfolded xs] y [unfolded yt]]
      by (simp add: leaf_at_Cons_obj)
  next
    case False
    with Cons.prems(2) x have ks: "ks = []" by (simp add: leaf_at_Cons_scalar)
    have ny: "\<not> is_object y"
    proof
      assume "is_object y"
      then obtain t where "y = JObj t" by (rule is_objectE)
      with Cons.prems(3) y ks show False by (simp add: leaf_at_Cons_obj)
    qed
    with Cons.prems(3) y have "y = w" by (simp add: leaf_at_Cons_scalar)
    with mergeMaps_lookup_scalar [OF d x False, of m2] y ny ks show ?thesis
      by (simp add: leaf_at_Cons_scalar)
  qed
qed

lemma wf_map_iff:
  "wf_map m \<longleftrightarrow> distinct (map fst m) \<and> (\<forall>k v. map_of m k = Some v \<longrightarrow> wf_json v)"
proof
  assume w: "wf_map m"
  then have d: "distinct (map fst m)" by (rule wf_map_distinct)
  moreover have "wf_json v" if "map_of m k = Some v" for k v
  proof -
    from that have "(k, v) \<in> set m" by (rule map_of_SomeD)
    with w show ?thesis unfolding wf_map_def by (fastforce simp: list_all_iff)
  qed
  ultimately show "distinct (map fst m) \<and> (\<forall>k v. map_of m k = Some v \<longrightarrow> wf_json v)"
    by blast
next
  assume a: "distinct (map fst m) \<and> (\<forall>k v. map_of m k = Some v \<longrightarrow> wf_json v)"
  then have "wf_json v" if "(k, v) \<in> set m" for k v
  proof -
    from a that have "map_of m k = Some v" by simp
    with a show ?thesis by blast
  qed
  with a show "wf_map m"
    unfolding wf_map_def by (auto simp: list_all_iff)
qed

lemma add_missing_distinct:
  "distinct (map fst acc) \<Longrightarrow> distinct (map fst (add_missing x acc))"
  by (cases x) (simp add: add_missing_def distinct_update)

lemma second_loop_distinct:
  "distinct (map fst acc) \<Longrightarrow> distinct (map fst (fold add_missing m2 acc))"
  by (induction m2 arbitrary: acc) (simp_all add: add_missing_distinct)

lemma put_pruned_distinct:
  "distinct (map fst acc) \<Longrightarrow> distinct (map fst (put_pruned k m acc))"
  by (simp add: put_pruned_def Let_def distinct_update distinct_delete)

lemma merge_base_distinct:
  "distinct (map fst acc) \<Longrightarrow> distinct (map fst (merge_base m1 m2 acc))"
proof (induction m1 arbitrary: acc)
  case Nil
  then show ?case by simp
next
  case (Cons x m1)
  obtain a v where x: "x = (a, v)" by (cases x)
  show ?case
    unfolding x merge_base.simps
    by (rule Cons.IH)
       (simp add: put_pruned_distinct distinct_update Cons.prems
          split: json.splits option.splits)
qed

lemma mergeMaps_distinct: "distinct (map fst (mergeMaps m1 m2))"
  by (simp add: mergeMaps.simps second_loop_distinct merge_base_distinct)

lemma mergeMaps_wf_aux:
  "\<forall>m1. v = JObj m1 \<longrightarrow> (\<forall>m2. wf_map m1 \<longrightarrow> wf_map m2 \<longrightarrow> wf_map (mergeMaps m1 m2))"
proof (induction v)
  case (JObj m)
  show ?case
  proof (intro allI impI)
    fix m1 m2
    assume eq: "JObj m = JObj m1" and w1: "wf_map m1" and w2: "wf_map m2"
    note d = wf_map_distinct [OF w1]
    have "wf_json r" if r: "map_of (mergeMaps m1 m2) k = Some r" for k r
    proof (cases "map_of m1 k")
      case None
      with r have "map_of m2 k = Some r" by (simp add: mergeMaps_lookup_absent [OF d])
      with w2 show ?thesis by (simp add: wf_map_iff)
    next
      case (Some x)
      from w1 Some have wx: "wf_json x" by (simp add: wf_map_iff)
      show ?thesis
      proof (cases "is_object x")
        case False
        from r mergeMaps_lookup_scalar [OF d Some False, of m2]
        have "r = x \<or> map_of m2 k = Some r" by (auto split: option.splits)
        with wx w2 show ?thesis by (auto simp: wf_map_iff)
      next
        case True
        then obtain s where xs: "x = JObj s" by (rule is_objectE)
        have ws: "wf_map s" using wx xs by (simp add: wf_map_def)
        show ?thesis
        proof (cases "\<exists>t. map_of m2 k = Some (JObj t)")
          case True
          then obtain t where t: "map_of m2 k = Some (JObj t)" by blast
          from w2 t have wt: "wf_map t" by (rule wf_map_sub)
          from Some xs have "(k, JObj s) \<in> set m1" by (auto dest: map_of_SomeD)
          with eq have "(k, JObj s) \<in> set m" by simp
          from JObj.IH [OF this] have "wf_map (mergeMaps s t)"
            using ws wt by simp
          with r mergeMaps_lookup_objects [OF d Some [unfolded xs] t] wt
          show ?thesis by (auto simp: wf_map_def split: if_splits)
        next
          case False
          then have "\<forall>y. map_of m2 k = Some y \<longrightarrow> \<not> is_object y"
            by (auto elim: is_objectE)
          from r mergeMaps_lookup_base_object [OF d Some [unfolded xs] this]
          have "r = x \<or> map_of m2 k = Some r" using xs by (auto split: if_splits)
          with wx w2 show ?thesis by (auto simp: wf_map_iff)
        qed
      qed
    qed
    then show "wf_map (mergeMaps m1 m2)"
      by (simp add: wf_map_iff mergeMaps_distinct)
  qed
qed simp_all

lemma mergeMaps_wf: "wf_map m1 \<Longrightarrow> wf_map m2 \<Longrightarrow> wf_map (mergeMaps m1 m2)"
  using mergeMaps_wf_aux [of "JObj m1"] by simp

declare leaves.simps [simp del]

lemma entry_leaves_mem:
  "(p, v) \<in> set (case x of JObj sub \<Rightarrow> map (\<lambda>(q, y). (k # q, y)) (leaves sub)
                            | _ \<Rightarrow> [([k], x)]) \<longleftrightarrow>
   (case x of JObj sub \<Rightarrow> \<exists>q. p = k # q \<and> (q, v) \<in> set (leaves sub)
            | _ \<Rightarrow> p = [k] \<and> v = x)"
  by (cases x) (force simp: image_iff)+

lemma leaves_mem:
  "(p, v) \<in> set (leaves m) \<longleftrightarrow>
     (\<exists>k x. (k, x) \<in> set m \<and>
        (case x of JObj sub \<Rightarrow> \<exists>q. p = k # q \<and> (q, v) \<in> set (leaves sub)
                 | _ \<Rightarrow> p = [k] \<and> v = x))"
proof -
  have "(p, v) \<in> set (leaves m) \<longleftrightarrow>
        (\<exists>e \<in> set m. (p, v) \<in> set (case e of (k, x) \<Rightarrow>
            (case x of JObj sub \<Rightarrow> map (\<lambda>(q, y). (k # q, y)) (leaves sub)
                     | _ \<Rightarrow> [([k], x)])))"
    by (subst leaves.simps) simp
  also have "\<dots> \<longleftrightarrow> (\<exists>k x. (k, x) \<in> set m \<and> (p, v) \<in> set
            (case x of JObj sub \<Rightarrow> map (\<lambda>(q, y). (k # q, y)) (leaves sub)
                     | _ \<Rightarrow> [([k], x)]))"
    by (simp add: Bex_def split_paired_Ex)
  finally show ?thesis by (simp only: entry_leaves_mem)
qed

lemma leaves_not_Nil: "([], v) \<notin> set (leaves m)"
proof -
  have "\<not> (case x of JObj sub \<Rightarrow> \<exists>q. [] = k # q \<and> (q, v) \<in> set (leaves sub)
                     | _ \<Rightarrow> [] = [k] \<and> v = x)" for k x
    by (cases x) simp_all
  then show ?thesis by (subst leaves_mem) blast
qed

lemma leaves_Cons:
  "(k # ks, v) \<in> set (leaves m) \<longleftrightarrow>
     (\<exists>x. (k, x) \<in> set m \<and>
        (case x of JObj sub \<Rightarrow> (ks, v) \<in> set (leaves sub) | _ \<Rightarrow> ks = [] \<and> v = x))"
proof -
  have eq: "(case x of JObj sub \<Rightarrow> \<exists>q. k # ks = k' # q \<and> (q, v) \<in> set (leaves sub)
                 | _ \<Rightarrow> k # ks = [k'] \<and> v = x) \<longleftrightarrow>
        (k' = k \<and> (case x of JObj sub \<Rightarrow> (ks, v) \<in> set (leaves sub)
                            | _ \<Rightarrow> ks = [] \<and> v = x))" for k' x
    by (cases x) auto
  have "(k # ks, v) \<in> set (leaves m) \<longleftrightarrow>
        (\<exists>k' x. (k', x) \<in> set m \<and>
           (case x of JObj sub \<Rightarrow> \<exists>q. k # ks = k' # q \<and> (q, v) \<in> set (leaves sub)
                    | _ \<Rightarrow> k # ks = [k'] \<and> v = x))"
    by (rule leaves_mem)
  also have "\<dots> \<longleftrightarrow> (\<exists>k' x. (k', x) \<in> set m \<and> k' = k \<and>
           (case x of JObj sub \<Rightarrow> (ks, v) \<in> set (leaves sub) | _ \<Rightarrow> ks = [] \<and> v = x))"
    by (simp only: eq)
  also have "\<dots> \<longleftrightarrow> (\<exists>x. (k, x) \<in> set m \<and>
           (case x of JObj sub \<Rightarrow> (ks, v) \<in> set (leaves sub) | _ \<Rightarrow> ks = [] \<and> v = x))"
    by blast
  finally show ?thesis .
qed

lemma leaves_iff_leaf_at:
  "wf_map m \<Longrightarrow> (p, v) \<in> set (leaves m) \<longleftrightarrow> leaf_at m p v"
proof (induction p arbitrary: m)
  case Nil
  show ?case by (simp add: leaves_not_Nil)
next
  case (Cons k ks)
  note d = wf_map_distinct [OF Cons.prems]
  show ?case
  proof (cases "map_of m k")
    case None
    then have "\<And>x. (k, x) \<notin> set m" by (force simp: map_of_eq_None_iff)
    then have "(k # ks, v) \<notin> set (leaves m)"
      by (subst leaves_Cons) blast
    with None show ?thesis by (simp add: leaf_at_Cons_None)
  next
    case (Some x)
    have mem: "(k, y) \<in> set m \<longleftrightarrow> y = x" for y
      using map_of_eq_Some_iff [OF d, of k y] Some by auto
    have step: "(k # ks, v) \<in> set (leaves m) \<longleftrightarrow>
          (case x of JObj sub \<Rightarrow> (ks, v) \<in> set (leaves sub) | _ \<Rightarrow> ks = [] \<and> v = x)"
      by (subst leaves_Cons) (simp add: mem)
    show ?thesis
    proof (cases "is_object x")
      case True
      then obtain s where xs: "x = JObj s" by (rule is_objectE)
      from Cons.prems Some xs have ws: "wf_map s" by (auto intro: wf_map_sub)
      from step xs have "(k # ks, v) \<in> set (leaves m) \<longleftrightarrow> (ks, v) \<in> set (leaves s)"
        by simp
      with Cons.IH [OF ws] Some xs show ?thesis by (simp add: leaf_at_Cons_obj)
    next
      case False
      with step have "(k # ks, v) \<in> set (leaves m) \<longleftrightarrow> ks = [] \<and> v = x"
        by (cases x) simp_all
      with Some False show ?thesis by (auto simp: leaf_at_Cons_scalar)
    qed
  qed
qed

lemma second_loop_append:
  "distinct (map fst m2) \<Longrightarrow> fst ` set acc \<inter> fst ` set m2 = {} \<Longrightarrow>
   fold add_missing m2 acc = acc @ m2"
proof (induction m2 arbitrary: acc)
  case Nil
  then show ?case by simp
next
  case (Cons x m2)
  obtain a b where x: "x = (a, b)" by (cases x)
  from Cons.prems x have na: "a \<notin> fst ` set acc" by auto
  then have none: "map_of acc a = None" by (simp add: map_of_eq_None_iff)
  from na have upd: "AList.update a b acc = acc @ [(a, b)]"
    by (induction acc) auto
  have "fold add_missing m2 (acc @ [(a, b)]) = (acc @ [(a, b)]) @ m2"
    using Cons.prems x by (intro Cons.IH) auto
  then show ?case by (simp add: x add_missing_def none upd)
qed

lemma merge_empty_base: "distinct (map fst override) \<Longrightarrow> mergeMaps [] override = override"
  by (simp add: mergeMaps.simps second_loop_append)

lemma merge_empty_override:
  "distinct (map fst base) \<Longrightarrow>
   map_of (mergeMaps base []) k =
     (case map_of base k of Some (JObj []) \<Rightarrow> None | r \<Rightarrow> r)"
  by (simp add: mergeMaps_lookup split: option.splits json.splits list.splits)

text \<open>
  The example of section 8 of the specification: the current text over the default text.
\<close>

lemma custom_text_example:
  "mergeMaps [(''login'', JObj [(''title'', JStr ''Default''), (''subtitle'', JStr ''Welcome'')])]
             [(''login'', JObj [(''title'', JStr ''Sign in'')])]
   = [(''login'', JObj [(''title'', JStr ''Sign in''), (''subtitle'', JStr ''Welcome'')])]"
  by (simp add: mergeMaps.simps put_pruned_def add_missing_def)

text \<open>
  C4, as amended. For all base and override documents whose leaves are disjoint and in
  which no key path holds a nested object in one document and a value that is not an
  object in the other, the merge of base and override contains every leaf of both; and
  for every key path at which both documents hold a scalar leaf, the merged result holds
  the value of override at that path.
\<close>

theorem merge_keeps_leaves:
  assumes "wf_map base" and "wf_map override"
  shows "(clash_free base override \<and>
          set (map fst (leaves base)) \<inter> set (map fst (leaves override)) = {}
            \<longrightarrow> set (leaves base) \<union> set (leaves override)
                  \<subseteq> set (leaves (mergeMaps base override)))
       \<and> (\<forall>p v w. (p, v) \<in> set (leaves base) \<and> (p, w) \<in> set (leaves override)
            \<longrightarrow> (p, w) \<in> set (leaves (mergeMaps base override)))"
proof (intro conjI impI allI)
  note wm = mergeMaps_wf [OF assms]
  assume h: "clash_free base override \<and>
          set (map fst (leaves base)) \<inter> set (map fst (leaves override)) = {}"
  show "set (leaves base) \<union> set (leaves override)
          \<subseteq> set (leaves (mergeMaps base override))"
  proof
    fix e
    assume e: "e \<in> set (leaves base) \<union> set (leaves override)"
    obtain p v where pv: "e = (p, v)" by (cases e)
    from e pv consider "(p, v) \<in> set (leaves override)" | "(p, v) \<in> set (leaves base)"
      by auto
    then have "leaf_at (mergeMaps base override) p v"
    proof cases
      case 1
      then have "leaf_at override p v" by (simp add: leaves_iff_leaf_at [OF assms(2)])
      with assms(1) h show ?thesis by (simp add: override_leaf_kept)
    next
      case 2
      then have lb: "leaf_at base p v" by (simp add: leaves_iff_leaf_at [OF assms(1)])
      have "\<not> leaf_at override p w" for w
      proof
        assume "leaf_at override p w"
        then have "(p, w) \<in> set (leaves override)"
          by (simp add: leaves_iff_leaf_at [OF assms(2)])
        with 2 have "p \<in> set (map fst (leaves base)) \<inter> set (map fst (leaves override))"
          by force
        with h show False by simp
      qed
      with assms(1) h lb show ?thesis by (simp add: base_leaf_kept)
    qed
    with pv show "e \<in> set (leaves (mergeMaps base override))"
      by (simp add: leaves_iff_leaf_at [OF wm])
  qed
next
  fix p v w
  note wm = mergeMaps_wf [OF assms]
  assume "(p, v) \<in> set (leaves base) \<and> (p, w) \<in> set (leaves override)"
  then have "leaf_at base p v" and "leaf_at override p w"
    by (simp_all add: leaves_iff_leaf_at assms)
  with assms(1) have "leaf_at (mergeMaps base override) p w"
    by (rule overlapping_leaf_override)
  then show "(p, w) \<in> set (leaves (mergeMaps base override))"
    by (simp add: leaves_iff_leaf_at [OF wm])
qed

text \<open>
  C4, witness: a default text and a current text for other keys, then a current text
  that overrides the title.
\<close>

theorem merge_keeps_leaves_witness:
  "wf_map [(''login'', JObj [(''title'', JStr ''Default''), (''subtitle'', JStr ''Welcome'')])]
   \<and> wf_map [(''login'', JObj [(''description'', JStr ''Sign in'')]),
              (''signup'', JObj [(''title'', JStr ''Join'')])]
   \<and> clash_free
        [(''login'', JObj [(''title'', JStr ''Default''), (''subtitle'', JStr ''Welcome'')])]
        [(''login'', JObj [(''description'', JStr ''Sign in'')]),
         (''signup'', JObj [(''title'', JStr ''Join'')])]
   \<and> set (map fst (leaves
          [(''login'', JObj [(''title'', JStr ''Default''), (''subtitle'', JStr ''Welcome'')])]))
       \<inter> set (map fst (leaves
          [(''login'', JObj [(''description'', JStr ''Sign in'')]),
           (''signup'', JObj [(''title'', JStr ''Join'')])])) = {}
   \<and> set (leaves
          [(''login'', JObj [(''title'', JStr ''Default''), (''subtitle'', JStr ''Welcome'')])])
       \<union> set (leaves
          [(''login'', JObj [(''description'', JStr ''Sign in'')]),
           (''signup'', JObj [(''title'', JStr ''Join'')])])
       \<subseteq> set (leaves (mergeMaps
          [(''login'', JObj [(''title'', JStr ''Default''), (''subtitle'', JStr ''Welcome'')])]
          [(''login'', JObj [(''description'', JStr ''Sign in'')]),
           (''signup'', JObj [(''title'', JStr ''Join'')])]))
   \<and> wf_map [(''login'', JObj [(''title'', JStr ''Sign in'')])]
   \<and> ([''login'', ''title''], JStr ''Default'') \<in> set (leaves
          [(''login'', JObj [(''title'', JStr ''Default''), (''subtitle'', JStr ''Welcome'')])])
   \<and> ([''login'', ''title''], JStr ''Sign in'') \<in> set (leaves
          [(''login'', JObj [(''title'', JStr ''Sign in'')])])
   \<and> ([''login'', ''title''], JStr ''Sign in'') \<in> set (leaves (mergeMaps
          [(''login'', JObj [(''title'', JStr ''Default''), (''subtitle'', JStr ''Welcome'')])]
          [(''login'', JObj [(''title'', JStr ''Sign in'')])]))"
  (is "wf_map ?B \<and> wf_map ?O1 \<and> clash_free ?B ?O1 \<and> ?D \<and> ?S \<and> wf_map ?O2 \<and> ?L1 \<and> ?L2 \<and> ?L3")
proof -
  have wb: "wf_map ?B" and w1: "wf_map ?O1" and w2: "wf_map ?O2"
    by (simp_all add: wf_map_def)
  have c: "clash_free ?B ?O1" by simp
  have d: ?D by (simp add: leaves.simps)
  have l1: ?L1 and l2: ?L2 by (simp_all add: leaves.simps)
  from merge_keeps_leaves [OF wb w1] c d have s: ?S by blast
  from merge_keeps_leaves [OF wb w2] l1 l2 have l3: ?L3 by blast
  from wb w1 w2 c d s l1 l2 l3 show ?thesis by blast
qed

text \<open>
  C4, counterexample to the claim as stated: the leaves of the two documents are at
  different paths, and the leaf of override is absent from the merge, because base holds
  a nested object at its key.
\<close>

theorem merge_disjoint_leaves_counterexample:
  "wf_map [(''a'', JObj [(''x'', JNum ''1'')])] \<and> wf_map [(''a'', JNum ''5'')] \<and>
   set (map fst (leaves [(''a'', JObj [(''x'', JNum ''1'')])]))
     \<inter> set (map fst (leaves [(''a'', JNum ''5'')])) = {} \<and>
   ([''a''], JNum ''5'') \<in> set (leaves [(''a'', JNum ''5'')]) \<and>
   ([''a''], JNum ''5'')
     \<notin> set (leaves (mergeMaps [(''a'', JObj [(''x'', JNum ''1'')])] [(''a'', JNum ''5'')]))"
  by (simp add: wf_map_def leaves.simps mergeMaps.simps put_pruned_def add_missing_def)

text \<open>
  C5, the code at the failing input: both documents hold an empty object under the same
  key. The merged sub-object is empty and the first loop deletes the key, but the second
  loop tests the key against the merged map and puts the empty object of override back.
\<close>

theorem pruned_key_added_again:
  "mergeMaps [] [] = [] \<and>
   mergeMaps [(''login'', JObj [])] [(''login'', JObj [])] = [(''login'', JObj [])]"
  by (simp add: mergeMaps.simps put_pruned_def add_missing_def)

text \<open>
  A nested object of base that is not empty is kept against a value of override that is
  not an object: the branch of lines 355 to 357.
\<close>

lemma base_object_kept:
  assumes "distinct (map fst base)" and "map_of base k = Some (JObj s)" and "s \<noteq> []"
    and "map_of override k = Some y" and "\<not> is_object y"
  shows "map_of (mergeMaps base override) k = Some (JObj s)"
  using mergeMaps_lookup_base_object [OF assms(1,2), of override] assms(3-5) by simp

text \<open>An example of it.\<close>

lemma base_object_kept_example:
  "distinct (map fst [(''login'', JObj [(''title'', JStr ''Default'')])])
   \<and> map_of [(''login'', JObj [(''title'', JStr ''Default'')])] ''login''
        = Some (JObj [(''title'', JStr ''Default'')])
   \<and> [(''title'', JStr ''Default'')] \<noteq> []
   \<and> map_of [(''login'', JStr ''off'')] ''login'' = Some (JStr ''off'')
   \<and> \<not> is_object (JStr ''off'')
   \<and> map_of (mergeMaps [(''login'', JObj [(''title'', JStr ''Default'')])]
                        [(''login'', JStr ''off'')]) ''login''
        = Some (JObj [(''title'', JStr ''Default'')])"
  using base_object_kept [of "[(''login'', JObj [(''title'', JStr ''Default'')])]" "''login''"
          "[(''title'', JStr ''Default'')]" "[(''login'', JStr ''off'')]" "JStr ''off''"]
  by simp

text \<open>
  C10, the code at the failing input: base holds an empty object at the key and
  override a scalar. The first loop stores the empty object of base and deletes the key
  again (lines 356 to 358), and the second loop, which tests the key against the merged
  map, stores the scalar of override: override wins at that key.
\<close>

theorem empty_base_object_override_wins:
  "map_of [(''login'', JObj [])] ''login'' = Some (JObj [])
   \<and> map_of [(''login'', JStr ''off'')] ''login'' = Some (JStr ''off'')
   \<and> \<not> is_object (JStr ''off'')
   \<and> map_of (mergeMaps [(''login'', JObj [])] [(''login'', JStr ''off'')]) ''login''
        = Some (JStr ''off'')"
  by (simp add: mergeMaps.simps put_pruned_def add_missing_def)

section \<open>Properties of the fan-in\<close>

lemma completion_order_set: "set (completion_order order n) = {0..<n}"
  by (auto simp: completion_order_def Let_def)

lemma completion_order_distinct: "distinct (completion_order order n)"
  by (auto simp: completion_order_def Let_def)

lemma first_error_None: "(\<forall>x \<in> set xs. x = None) \<Longrightarrow> first_error xs = None"
  by (induction xs rule: first_error.induct) simp_all

lemma first_error_only:
  "(\<forall>x \<in> set xs. x = None \<or> x = Some e) \<Longrightarrow> Some e \<in> set xs \<Longrightarrow> first_error xs = Some e"
  by (induction xs rule: first_error.induct) auto

lemma group_Wait_None:
  assumes "\<forall>x \<in> set results. x = None"
  shows "group_Wait order results = None"
  unfolding group_Wait_def
  by (rule first_error_None) (use assms in \<open>auto simp: completion_order_set\<close>)

lemma group_Wait_only:
  assumes "\<forall>x \<in> set results. x = None \<or> x = Some e" and "Some e \<in> set results"
  shows "group_Wait order results = Some e"
  unfolding group_Wait_def
proof (rule first_error_only)
  show "\<forall>x\<in>set (map ((!) results) (completion_order order (length results))). x = None \<or> x = Some e"
    using assms(1) by (auto simp: completion_order_set)
  from assms(2) obtain i where "i < length results" "results ! i = Some e"
    by (auto simp: in_set_conv_nth)
  then show "Some e \<in> set (map ((!) results) (completion_order order (length results)))"
    by (force simp: completion_order_set)
qed

section \<open>Properties of the channel server\<close>

text \<open>
  C7. The origin check accepts a request with no Origin header, accepts one whose first
  Origin value parses to a URL that prints as exactly \<^verbatim>\<open>http://localhost:5173\<close>,
  and rejects every other present origin and every origin that does not parse.
\<close>

theorem origin_check:
  "CheckOrigin url_Parse url_String origin \<longleftrightarrow>
     origin = [] \<or> (\<exists>u. url_Parse (hd origin) = Some u \<and> url_String u = ''http://localhost:5173'')"
  by (cases origin) (auto simp: CheckOrigin_def split: option.splits)

text \<open>
  C7, examples, with a stand-in for the URL parser that keeps the text of the header
  and fails on a lone percent sign: no header, the expected origin, a foreign origin, an
  origin that does not parse.
\<close>

theorem origin_check_witness:
  "CheckOrigin (\<lambda>s. if s = ''%'' then None else Some s) (\<lambda>u. u) []
   \<and> CheckOrigin (\<lambda>s. if s = ''%'' then None else Some s) (\<lambda>u. u) [''http://localhost:5173'']
   \<and> \<not> CheckOrigin (\<lambda>s. if s = ''%'' then None else Some s) (\<lambda>u. u) [''http://evil.example'']
   \<and> \<not> CheckOrigin (\<lambda>s. if s = ''%'' then None else Some s) (\<lambda>u. u) [''%'']"
  using origin_check [of "\<lambda>s. if s = ''%'' then None else Some s" "\<lambda>u. u" "[]"]
    origin_check [of "\<lambda>s. if s = ''%'' then None else Some s" "\<lambda>u. u" "[''http://localhost:5173'']"]
    origin_check [of "\<lambda>s. if s = ''%'' then None else Some s" "\<lambda>u. u" "[''http://evil.example'']"]
    origin_check [of "\<lambda>s. if s = ''%'' then None else Some s" "\<lambda>u. u" "[''%'']"]
  by simp

text \<open>
  A received document with the connection flag false is handed to persistence like an
  edit: the branch of lines 426 to 435 does not leave the loop.
\<close>

lemma disconnect_document_reaches_persist:
  "\<not> Connected msg \<Longrightarrow>
   PersistCall msg \<in> set (fst (receive_loop persist close_err False (Inr msg # rest) st))"
  by (auto simp: Let_def split: prod.splits outcome.splits option.splits)

text \<open>
  C1, the code at the failing input: a session that receives one disconnect document.
  The handler closes the connection, prints the disconnect notice and cancels, then
  calls persistence with that document, which writes the template, prints the update
  notice, and only ends at the next read, which fails on the closed connection.
\<close>

theorem disconnect_document_is_persisted:
  "\<not> Connected (example_document\<lparr>Connected := False\<rparr>)
   \<and> fst (receive_loop (persistData no_faults []) None False
            [Inr (example_document\<lparr>Connected := False\<rparr>)] empty_remote)
       = [Close, DisconnectedNotice, Cancel,
          PersistCall (example_document\<lparr>Connected := False\<rparr>),
          UpdatedNotice, Log ''error reading from WebSocket'', Cancel]
   \<and> r_template (snd (receive_loop (persistData no_faults []) None False
            [Inr (example_document\<lparr>Connected := False\<rparr>)] empty_remote))
       = Some ''<html></html>''"
  by code_simp

section \<open>Properties of the aggregator\<close>

text \<open>
  C6. When the theme read fails and the feature check, the profile read, the tenant
  read and the custom text succeed, the aggregation returns a document, and its theme is
  the hard-coded default theme.
\<close>

theorem theme_read_failure_gives_default:
  assumes "BrandingTheme_Default api = Inl err"
    and "custom_domain_enabled api = None"
    and "Prompt_Read api = Inr profile"
    and "Tenant_Read api = Inr tenant"
    and "snd (fetchCustomTextWithDefaults api) = None"
  shows "\<exists>document. fetchPageData api tenantDomain order = Inr document
           \<and> Themes document = Some default_theme"
proof -
  obtain ct where ct: "fetchCustomTextWithDefaults api = (ct, None)"
    using assms(5) by (cases "fetchCustomTextWithDefaults api") simp
  have "group_Wait order
          [custom_domain_enabled api, error_of (Prompt_Read api), None, None, None,
           error_of (Tenant_Read api), None] = None"
    by (rule group_Wait_None) (simp add: assms)
  then show ?thesis
    by (simp add: fetchPageData_def Let_def ct fetchBrandingThemeOrUseEmpty_def assms(1))
qed

text \<open>
  C6, witness: the service has no theme yet.
\<close>

theorem theme_read_failure_gives_default_witness:
  "BrandingTheme_Default example_api = Inl (Err ''404 Not Found'')
   \<and> custom_domain_enabled example_api = None
   \<and> Prompt_Read example_api = Inr example_profile
   \<and> Tenant_Read example_api = Inr \<lparr> FriendlyName = Some ''Example'', EnabledLocales = [''en''] \<rparr>
   \<and> snd (fetchCustomTextWithDefaults example_api) = None
   \<and> (\<exists>document. fetchPageData example_api ''example.auth0.com'' [4, 0] = Inr document
           \<and> Themes document = Some default_theme)"
proof -
  have h1: "BrandingTheme_Default example_api = Inl (Err ''404 Not Found'')"
    and h2: "custom_domain_enabled example_api = None"
    and h3: "Prompt_Read example_api = Inr example_profile"
    and h4: "Tenant_Read example_api = Inr \<lparr> FriendlyName = Some ''Example'', EnabledLocales = [''en''] \<rparr>"
    by (simp_all add: example_api_def)
  have h5: "snd (fetchCustomTextWithDefaults example_api) = None"
    by (simp add: fetchCustomTextWithDefaults_def example_api_def availablePrompts_def)
  from theme_read_failure_gives_default [OF h1 h2 h3 h4 h5] h1 h2 h3 h4 h5
  show ?thesis by blast
qed

text \<open>
  A response with a status of 400 or more ends the assembly with the current text and
  the error variable of the request, which is nil at that point.
\<close>

lemma bad_status_returns_current_text:
  assumes "Prompt_CustomText api ''login'' ''en'' = Inr promptText"
    and "HTTPClient_NewRequest api prompts_url = None"
    and "HTTPClient_Do api prompts_url = Inr response" and "400 \<le> StatusCode response"
  shows "fetchCustomTextWithDefaults api = (Some [(''login'', JObj promptText)], None)"
  using assms
  by (simp add: fetchCustomTextWithDefaults_def availablePrompts_def language_def)

text \<open>
  C2, as amended. When the read of the prompt area succeeds and the request can be
  built, a transport failure or a decode failure of the bulk default-text fetch is
  returned as the error of the assembly, together with the current text collected so
  far, and the aggregation fails with that error when its other aborting reads succeed.
\<close>

theorem bulk_fetch_failure_is_returned:
  assumes "Prompt_CustomText api ''login'' ''en'' = Inr promptText"
    and "HTTPClient_NewRequest api prompts_url = None"
  shows "(HTTPClient_Do api prompts_url = Inl err \<longrightarrow>
            fetchCustomTextWithDefaults api = (Some [(''login'', JObj promptText)], Some err))
       \<and> (HTTPClient_Do api prompts_url = Inr response \<and> StatusCode response < 400
            \<and> Decoded response = Inl err \<longrightarrow>
            fetchCustomTextWithDefaults api = (Some [(''login'', JObj promptText)], Some err))
       \<and> (snd (fetchCustomTextWithDefaults api) = Some err
            \<and> custom_domain_enabled api = None \<and> error_of (Prompt_Read api) = None
            \<and> error_of (Tenant_Read api) = None \<longrightarrow>
            fetchPageData api tenantDomain order = Inl err)"
proof -
  have rp: "read_prompts api availablePrompts [] = Inr [(''login'', JObj promptText)]"
    using assms(1) by (simp add: availablePrompts_def language_def)
  have agg: "fetchPageData api tenantDomain order = Inl err"
    if e: "snd (fetchCustomTextWithDefaults api) = Some err"
      and ok: "custom_domain_enabled api = None" "error_of (Prompt_Read api) = None"
        "error_of (Tenant_Read api) = None"
  proof -
    obtain ct where ct: "fetchCustomTextWithDefaults api = (ct, Some err)"
      using e by (cases "fetchCustomTextWithDefaults api") simp
    have "group_Wait order
            [custom_domain_enabled api, error_of (Prompt_Read api), None, None, None,
             error_of (Tenant_Read api), Some err] = Some err"
      by (rule group_Wait_only) (simp_all add: ok)
    then show ?thesis by (simp add: fetchPageData_def Let_def ct)
  qed
  show ?thesis
    using agg by (simp add: fetchCustomTextWithDefaults_def rp assms(2))
qed

text \<open>
  C2, witness: the transport fails; then the transport succeeds and the body is not
  JSON.
\<close>

theorem bulk_fetch_failure_is_returned_witness:
  "Prompt_CustomText (example_api\<lparr>HTTPClient_Do := (\<lambda>url. Inl (Err ''dial tcp: i/o timeout''))\<rparr>)
       ''login'' ''en'' = Inr [(''login'', JObj [(''title'', JStr ''Sign in'')])]
   \<and> HTTPClient_NewRequest
        (example_api\<lparr>HTTPClient_Do := (\<lambda>url. Inl (Err ''dial tcp: i/o timeout''))\<rparr>)
        prompts_url = None
   \<and> HTTPClient_Do (example_api\<lparr>HTTPClient_Do := (\<lambda>url. Inl (Err ''dial tcp: i/o timeout''))\<rparr>)
        prompts_url = Inl (Err ''dial tcp: i/o timeout'')
   \<and> fetchCustomTextWithDefaults
        (example_api\<lparr>HTTPClient_Do := (\<lambda>url. Inl (Err ''dial tcp: i/o timeout''))\<rparr>)
       = (Some [(''login'', JObj [(''login'', JObj [(''title'', JStr ''Sign in'')])])],
          Some (Err ''dial tcp: i/o timeout''))
   \<and> fetchPageData
        (example_api\<lparr>HTTPClient_Do := (\<lambda>url. Inl (Err ''dial tcp: i/o timeout''))\<rparr>)
        ''example.auth0.com'' [] = Inl (Err ''dial tcp: i/o timeout'')
   \<and> HTTPClient_Do (example_api\<lparr>HTTPClient_Do := (\<lambda>url. Inr \<lparr> StatusCode = 200,
          Decoded = Inl (Err ''invalid character'') \<rparr>)\<rparr>) prompts_url
       = Inr \<lparr> StatusCode = 200, Decoded = Inl (Err ''invalid character'') \<rparr>
   \<and> fetchCustomTextWithDefaults
        (example_api\<lparr>HTTPClient_Do := (\<lambda>url. Inr \<lparr> StatusCode = 200,
          Decoded = Inl (Err ''invalid character'') \<rparr>)\<rparr>)
       = (Some [(''login'', JObj [(''login'', JObj [(''title'', JStr ''Sign in'')])])],
          Some (Err ''invalid character''))"
  (is "?H1 \<and> ?H2 \<and> ?H3 \<and> ?C1 \<and> ?C2 \<and> ?H4 \<and> ?C3")
proof -
  have h1: ?H1 and h2: ?H2 and h3: ?H3 by (simp_all add: example_api_def)
  note t = bulk_fetch_failure_is_returned [OF h1 h2, of "Err ''dial tcp: i/o timeout''"]
  from t h3 have c1: ?C1 by blast
  have ok: "custom_domain_enabled
              (example_api\<lparr>HTTPClient_Do := (\<lambda>url. Inl (Err ''dial tcp: i/o timeout''))\<rparr>) = None"
    "error_of (Prompt_Read
              (example_api\<lparr>HTTPClient_Do := (\<lambda>url. Inl (Err ''dial tcp: i/o timeout''))\<rparr>)) = None"
    "error_of (Tenant_Read
              (example_api\<lparr>HTTPClient_Do := (\<lambda>url. Inl (Err ''dial tcp: i/o timeout''))\<rparr>)) = None"
    by (simp_all add: example_api_def)
  from c1 have "snd (fetchCustomTextWithDefaults
        (example_api\<lparr>HTTPClient_Do := (\<lambda>url. Inl (Err ''dial tcp: i/o timeout''))\<rparr>))
       = Some (Err ''dial tcp: i/o timeout'')" by simp
  with t ok have c2: ?C2 by blast
  have g1: "Prompt_CustomText (example_api\<lparr>HTTPClient_Do := (\<lambda>url. Inr \<lparr> StatusCode = 200,
          Decoded = Inl (Err ''invalid character'') \<rparr>)\<rparr>) ''login'' ''en''
        = Inr [(''login'', JObj [(''title'', JStr ''Sign in'')])]"
    and g2: "HTTPClient_NewRequest (example_api\<lparr>HTTPClient_Do := (\<lambda>url. Inr \<lparr> StatusCode = 200,
          Decoded = Inl (Err ''invalid character'') \<rparr>)\<rparr>) prompts_url = None"
    and h4: ?H4
    by (simp_all add: example_api_def)
  from bulk_fetch_failure_is_returned [OF g1 g2, of "Err ''invalid character''"
          "\<lparr> StatusCode = 200, Decoded = Inl (Err ''invalid character'') \<rparr>"] h4
  have c3: ?C3 by simp
  from h1 h2 h3 c1 c2 h4 c3 show ?thesis by blast
qed

text \<open>
  C2, counterexample to the claim as stated: every read of a prompt area succeeds, the
  transport of the bulk fetch fails, and the assembly returns that error, on which the
  aggregation fails.
\<close>

theorem bulk_fetch_failure_counterexample:
  "read_prompts (example_api\<lparr>HTTPClient_Do := (\<lambda>url. Inl (Err ''dial tcp: i/o timeout''))\<rparr>)
       availablePrompts []
     = Inr [(''login'', JObj [(''login'', JObj [(''title'', JStr ''Sign in'')])])]
   \<and> snd (fetchCustomTextWithDefaults
        (example_api\<lparr>HTTPClient_Do := (\<lambda>url. Inl (Err ''dial tcp: i/o timeout''))\<rparr>))
     = Some (Err ''dial tcp: i/o timeout'')
   \<and> fetchPageData
        (example_api\<lparr>HTTPClient_Do := (\<lambda>url. Inl (Err ''dial tcp: i/o timeout''))\<rparr>)
        ''example.auth0.com'' [] = Inl (Err ''dial tcp: i/o timeout'')"
  by (simp add: fetchPageData_def fetchCustomTextWithDefaults_def example_api_def
        availablePrompts_def language_def group_Wait_def completion_order_def upt_rec Let_def)

section \<open>Properties of the persister\<close>

lemma unmarshal_empty_iff: "unmarshal_object v = Inr [] \<longleftrightarrow> v = JNull \<or> v = JObj []"
  by (cases v) auto

lemma take_length_eq_iff: "take (length sub) s = sub \<longleftrightarrow> (\<exists>q. s = sub @ q)"
  by (metis append_eq_conv_conj append_take_drop_id)

lemma Contains_iff: "Contains s sub \<longleftrightarrow> (\<exists>p q. s = p @ sub @ q)"
proof (induction s)
  case Nil
  then show ?case by simp
next
  case (Cons c cs)
  have "(\<exists>p q. c # cs = p @ sub @ q) \<longleftrightarrow> (\<exists>q. c # cs = sub @ q) \<or> (\<exists>p q. cs = p @ sub @ q)"
  proof
    assume "\<exists>p q. c # cs = p @ sub @ q"
    then obtain p q where pq: "c # cs = p @ sub @ q" by blast
    show "(\<exists>q. c # cs = sub @ q) \<or> (\<exists>p q. cs = p @ sub @ q)"
    proof (cases p)
      case Nil
      with pq show ?thesis by auto
    next
      case (Cons a p')
      with pq have "cs = p' @ sub @ q" by simp
      then show ?thesis by blast
    qed
  next
    assume "(\<exists>q. c # cs = sub @ q) \<or> (\<exists>p q. cs = p @ sub @ q)"
    then show "\<exists>p q. c # cs = p @ sub @ q"
    proof
      assume "\<exists>q. c # cs = sub @ q"
      then obtain q where "c # cs = [] @ sub @ q" by auto
      then show ?thesis by blast
    next
      assume "\<exists>p q. cs = p @ sub @ q"
      then obtain p q where "c # cs = (c # p) @ sub @ q" by auto
      then show ?thesis by blast
    qed
  qed
  with Cons.IH show ?case
    by (simp only: Contains.simps take_length_eq_iff)
qed

lemma Contains_inside: "Contains b sub \<Longrightarrow> Contains (a @ b @ c) sub"
proof -
  assume "Contains b sub"
  then obtain p q where "b = p @ sub @ q" by (auto simp: Contains_iff)
  then have "a @ b @ c = (a @ p) @ sub @ (q @ c)" by simp
  then show ?thesis unfolding Contains_iff by blast
qed

lemma join_commas_member:
  "x \<in> set xs \<Longrightarrow> \<exists>p q. join_commas xs = p @ x @ q"
proof (induction xs rule: join_commas.induct)
  case 1
  then show ?case by simp
next
  case (2 y)
  then have "join_commas [y] = [] @ x @ []" by simp
  then show ?case by blast
next
  case (3 y z zs)
  show ?case
  proof (cases "x = y")
    case True
    then have "join_commas (y # z # zs) = [] @ x @ ('','' @ join_commas (z # zs))" by simp
    then show ?thesis by blast
  next
    case False
    with 3 obtain p q where "join_commas (z # zs) = p @ x @ q" by auto
    then have "join_commas (y # z # zs) = (y @ '','' @ p) @ x @ q" by simp
    then show ?thesis by blast
  qed
qed

lemma Contains_join_commas:
  "x \<in> set xs \<Longrightarrow> Contains x sub \<Longrightarrow> Contains (join_commas xs) sub"
proof -
  assume "x \<in> set xs" and c: "Contains x sub"
  then obtain p q where "join_commas xs = p @ x @ q" by (blast dest: join_commas_member)
  with Contains_inside [OF c, of p q] show ?thesis by simp
qed

lemma empty_object_in_serialization:
  "has_empty_object v \<Longrightarrow> Contains (Marshal v) ''{}''"
proof (induction v)
  case (JArr xs)
  then obtain x where x: "x \<in> set xs" "has_empty_object x" by (auto simp: list_ex_iff)
  with JArr.IH have "Contains (Marshal x) ''{}''" by simp
  with x have "Contains (join_commas (map Marshal xs)) ''{}''"
    by (intro Contains_join_commas [of "Marshal x"]) simp_all
  from Contains_inside [OF this, of "''[''" "'']''"] show ?case by simp
next
  case (JObj m)
  show ?case
  proof (cases "m = []")
    case True
    then show ?thesis by simp
  next
    case False
    with JObj.prems obtain k x where kx: "(k, x) \<in> set m" "has_empty_object x"
      by (auto simp: list_ex_iff)
    with JObj.IH have c: "Contains (Marshal x) ''{}''" by fastforce
    let ?rendered = "map (\<lambda>(k, r). quote k @ '':'' @ r)
                       (sort_key fst (map (\<lambda>(k, v). (k, Marshal v)) m))"
    from kx have "(k, Marshal x) \<in> set (sort_key fst (map (\<lambda>(k, v). (k, Marshal v)) m))"
      by force
    then have mem: "quote k @ '':'' @ Marshal x \<in> set ?rendered" by force
    from Contains_inside [OF c, of "quote k @ '':''" "[]"]
    have "Contains (quote k @ '':'' @ Marshal x) ''{}''" by simp
    from Contains_join_commas [OF mem this]
    have "Contains (join_commas ?rendered) ''{}''" .
    from Contains_inside [OF this, of "''{''" "''}''"] show ?thesis by simp
  qed
qed simp_all

declare Marshal.simps [simp del] Contains.simps [simp del]

text \<open>
  What the body of lines 484 to 503 does with an entry, up to the call of the gateway.
\<close>

lemma custom_text_action_cases:
  "(custom_text_action key value = Skip \<longleftrightarrow>
      Contains (Marshal value) ''{}'' \<or> unmarshal_object value = Inr [])
   \<and> (\<forall>m. value = JObj m \<and> \<not> Contains (Marshal value) ''{}'' \<longrightarrow>
          custom_text_action key value = Write key ''en'' m)
   \<and> (\<not> is_object value \<and> value \<noteq> JNull \<and> \<not> Contains (Marshal value) ''{}'' \<longrightarrow>
          (\<exists>err. custom_text_action key value = Fail err))
   \<and> (has_empty_object value \<longrightarrow> custom_text_action key value = Skip)"
proof (intro conjI allI impI)
  show "custom_text_action key value = Skip \<longleftrightarrow>
      Contains (Marshal value) ''{}'' \<or> unmarshal_object value = Inr []"
    by (cases "unmarshal_object value")
       (auto simp: custom_text_action_def Let_def)
next
  fix m
  assume a: "value = JObj m \<and> \<not> Contains (Marshal value) ''{}''"
  then have v: "value = JObj m" and nc: "\<not> Contains (Marshal (JObj m)) ''{}''"
    by auto
  have "m \<noteq> []"
  proof
    assume "m = []"
    then have "Contains (Marshal (JObj m)) ''{}''"
      by (simp add: Marshal.simps Contains.simps)
    with nc show False by simp
  qed
  with v nc show "custom_text_action key value = Write key ''en'' m"
    by (simp add: custom_text_action_def Let_def)
next
  assume "\<not> is_object value \<and> value \<noteq> JNull \<and> \<not> Contains (Marshal value) ''{}''"
  then show "\<exists>err. custom_text_action key value = Fail err"
    by (cases "value")
       (simp_all add: custom_text_action_def Let_def)
next
  assume "has_empty_object value"
  then have "Contains (Marshal value) ''{}''" by (rule empty_object_in_serialization)
  then show "custom_text_action key value = Skip"
    by (simp add: custom_text_action_def Let_def)
qed

lemma scheduled_set: "set (scheduled order data) = set (persist_jobs data)"
proof -
  have "set (map ((!) xs) (completion_order order (length xs))) = set xs" for xs :: "job list"
    by (auto simp: completion_order_set in_set_conv_nth)
  then show ?thesis by (simp add: scheduled_def)
qed

lemma returned_not_Panic: "fst (returned x) \<noteq> Panic"
  by (cases x) simp

lemma run_job_Panic_iff: "fst (run_job f data t r) = Panic \<longleftrightarrow> panics data t"
  by (cases t)
     (auto simp: returned_not_Panic Let_def split: option.splits sum.splits entry_action.splits)

lemma run_group_Panic_iff:
  "fst (run_group f data ts first r) = Panic \<longleftrightarrow> (\<exists>t \<in> set ts. panics data t)"
proof (induction ts arbitrary: first r)
  case Nil
  then show ?case by simp
next
  case (Cons t ts)
  obtain out r' where o: "run_job f data t r = (out, r')" by (cases "run_job f data t r")
  show ?case
  proof (cases out)
    case Panic
    with o run_job_Panic_iff [of f data t r] show ?thesis by simp
  next
    case (Done err)
    with o run_job_Panic_iff [of f data t r] have "\<not> panics data t" by simp
    with o Done Cons.IH show ?thesis by simp
  qed
qed

text \<open>
  C9, as amended. Persistence panics exactly on the documents in which the template,
  the theme or the branding settings are missing: each of the three is dereferenced with
  no guard. A missing authentication profile is not dereferenced: the nil pointer is
  passed to the profile update of the gateway.
\<close>

theorem persist_panics_iff:
  "fst (persistData f order data r) = Panic \<longleftrightarrow>
     Templates data = None \<or> Themes data = None \<or> Branding data = None"
proof -
  have "(\<exists>t \<in> set (persist_jobs data). panics data t) \<longleftrightarrow>
          Templates data = None \<or> Themes data = None \<or> Branding data = None"
    by (auto simp: persist_jobs_def)
  then show ?thesis
    by (simp add: persistData_def run_group_Panic_iff scheduled_set)
qed

text \<open>
  C9, examples: a document without branding settings, and a complete document.
\<close>

theorem persist_panics_iff_witness:
  "Templates (example_document\<lparr>Branding := None\<rparr>) \<noteq> None
   \<and> Themes (example_document\<lparr>Branding := None\<rparr>) \<noteq> None
   \<and> Branding (example_document\<lparr>Branding := None\<rparr>) = None
   \<and> fst (persistData no_faults [3, 1] (example_document\<lparr>Branding := None\<rparr>) empty_remote)
       = Panic
   \<and> fst (persistData no_faults [3, 1] example_document empty_remote) \<noteq> Panic"
  using persist_panics_iff [of no_faults "[3, 1]" "example_document\<lparr>Branding := None\<rparr>" empty_remote]
    persist_panics_iff [of no_faults "[3, 1]" example_document empty_remote]
  by (simp add: example_document_def)

text \<open>
  C9, counterexample to the claim as stated: the authentication profile is missing
  and persistence returns without a panic.
\<close>

theorem nil_profile_counterexample:
  "AuthenticationProfile (example_document\<lparr>AuthenticationProfile := None\<rparr>) = None
   \<and> fst (persistData no_faults [] (example_document\<lparr>AuthenticationProfile := None\<rparr>)
            empty_remote) = Done None"
  by code_simp

declare job_error.simps [simp del]

lemma custom_text_action_Write:
  "custom_text_action key value = Write p l b \<Longrightarrow> p = key \<and> l = ''en''"
  by (auto simp: custom_text_action_def Let_def split: if_splits sum.splits)

lemma returned_fst: "fst (returned x) = Done (fst x)"
  by (cases x) simp

lemma returned_snd: "snd (returned x) = snd x"
  by (cases x) simp

lemma job_local:
  assumes "stored (resource_of t) r1 = stored (resource_of t) r"
  shows "fst (run_job f data t r1) = fst (run_job f data t r)
       \<and> stored (resource_of t) (snd (run_job f data t r1))
           = stored (resource_of t) (snd (run_job f data t r))"
proof (cases t)
  case TemplateJob
  with assms show ?thesis
    by (simp add: Branding_SetUniversalLogin_def split: option.splits)
next
  case ThemeJob
  with assms have "r_theme r1 = r_theme r" by simp
  with ThemeJob show ?thesis
    by (simp add: Let_def BrandingTheme_Read_Default_def BrandingTheme_Create_def
          BrandingTheme_Update_def split: option.splits)
next
  case ProfileJob
  with assms show ?thesis by (simp add: Prompt_Update_def split: option.splits)
next
  case BrandingJob
  with assms show ?thesis by (simp add: Branding_Update_def split: option.splits)
next
  case (CustomTextJob key v)
  with assms have eq: "map_of (r_custom_text r1) (key, ''en'') = map_of (r_custom_text r) (key, ''en'')"
    by simp
  show ?thesis
  proof (cases "custom_text_action key v")
    case (Write p l b)
    with custom_text_action_Write have "p = key" "l = ''en''" by blast+
    with CustomTextJob Write eq show ?thesis
      by (simp add: Prompt_SetCustomText_def update_conv' split: option.splits)
  qed (use CustomTextJob eq in simp_all)
qed

lemma job_frame:
  assumes "\<rho> \<noteq> resource_of t"
  shows "stored \<rho> (snd (run_job f data t r1)) = stored \<rho> r1"
proof (cases t)
  case TemplateJob
  with assms show ?thesis
    by (cases \<rho>) (simp_all add: Branding_SetUniversalLogin_def split: option.splits)
next
  case ThemeJob
  with assms show ?thesis
    by (cases \<rho>)
       (simp_all add: Let_def BrandingTheme_Read_Default_def BrandingTheme_Create_def
          BrandingTheme_Update_def split: option.splits)
next
  case ProfileJob
  with assms show ?thesis
    by (cases \<rho>) (simp_all add: Prompt_Update_def split: option.splits)
next
  case BrandingJob
  with assms show ?thesis
    by (cases \<rho>) (simp_all add: Branding_Update_def split: option.splits)
next
  case (CustomTextJob key v)
  show ?thesis
  proof (cases "custom_text_action key v")
    case (Write p l b)
    with custom_text_action_Write have "p = key" "l = ''en''" by blast+
    with CustomTextJob Write assms show ?thesis
      by (cases \<rho>) (simp_all add: Prompt_SetCustomText_def update_conv' split: option.splits)
  qed (use CustomTextJob in simp_all)
qed

lemma run_job_Done:
  "\<not> panics data t \<Longrightarrow> fst (run_job f data t r) = Done (job_error f data r t)"
  using run_job_Panic_iff [of f data t r]
  by (cases "fst (run_job f data t r)") (simp_all add: job_error.simps)

lemma run_group_result:
  assumes "distinct (map resource_of ts)"
    and "\<forall>t \<in> set ts. \<not> panics data t"
    and "\<forall>t \<in> set ts. stored (resource_of t) r1 = stored (resource_of t) r"
  shows "\<exists>r2. run_group f data ts first r1
              = (Done (if first = None then first_error (map (job_error f data r) ts) else first),
                 r2)
           \<and> (\<forall>t \<in> set ts. stored (resource_of t) r2
                  = stored (resource_of t) (snd (run_job f data t r)))
           \<and> (\<forall>\<rho>. \<rho> \<notin> resource_of ` set ts \<longrightarrow> stored \<rho> r2 = stored \<rho> r1)"
  using assms
proof (induction ts arbitrary: first r1)
  case Nil
  then show ?case by simp
next
  case (Cons t ts)
  let ?r1' = "snd (run_job f data t r1)"
  let ?err = "job_error f data r t"
  from Cons.prems have np: "\<not> panics data t" and loc: "stored (resource_of t) r1 = stored (resource_of t) r"
    and notin: "resource_of t \<notin> resource_of ` set ts" and d: "distinct (map resource_of ts)"
    by auto
  from job_local [OF loc, of f data] run_job_Done [OF np, of f r]
  have out: "fst (run_job f data t r1) = Done ?err"
    and st: "stored (resource_of t) ?r1' = stored (resource_of t) (snd (run_job f data t r))"
    by simp_all
  have rest: "\<forall>t' \<in> set ts. stored (resource_of t') ?r1' = stored (resource_of t') r"
  proof
    fix t' assume t': "t' \<in> set ts"
    with notin have "resource_of t' \<noteq> resource_of t" by (metis imageI)
    from job_frame [OF this, of f data r1] Cons.prems(3) t'
    show "stored (resource_of t') ?r1' = stored (resource_of t') r" by simp
  qed
  from Cons.prems(2) have np': "\<forall>t \<in> set ts. \<not> panics data t" by simp
  have "\<exists>r2. run_group f data ts (if first = None then ?err else first) ?r1'
            = (Done (if (if first = None then ?err else first) = None
                     then first_error (map (job_error f data r) ts)
                     else (if first = None then ?err else first)), r2)
          \<and> (\<forall>t \<in> set ts. stored (resource_of t) r2
                  = stored (resource_of t) (snd (run_job f data t r)))
          \<and> (\<forall>\<rho>. \<rho> \<notin> resource_of ` set ts \<longrightarrow> stored \<rho> r2 = stored \<rho> ?r1')"
    by (rule Cons.IH [OF d np' rest])
  then obtain r2 where
    run: "run_group f data ts (if first = None then ?err else first) ?r1'
            = (Done (if (if first = None then ?err else first) = None
                     then first_error (map (job_error f data r) ts)
                     else (if first = None then ?err else first)), r2)"
    and own: "\<forall>t \<in> set ts. stored (resource_of t) r2
                  = stored (resource_of t) (snd (run_job f data t r))"
    and frame: "\<forall>\<rho>. \<rho> \<notin> resource_of ` set ts \<longrightarrow> stored \<rho> r2 = stored \<rho> ?r1'"
    by blast
  have step: "run_group f data (t # ts) first r1
                = run_group f data ts (if first = None then ?err else first) ?r1'"
    using out by (cases "run_job f data t r1") simp
  have res: "(if (if first = None then ?err else first) = None
              then first_error (map (job_error f data r) ts)
              else (if first = None then ?err else first))
           = (if first = None then first_error (map (job_error f data r) (t # ts)) else first)"
    by (cases ?err) simp_all
  have "stored (resource_of t) r2 = stored (resource_of t) (snd (run_job f data t r))"
    using frame notin st by simp
  moreover have "\<forall>\<rho>. \<rho> \<notin> resource_of ` set (t # ts) \<longrightarrow> stored \<rho> r2 = stored \<rho> r1"
  proof (intro allI impI)
    fix \<rho> assume a: "\<rho> \<notin> resource_of ` set (t # ts)"
    then have "\<rho> \<noteq> resource_of t" and "\<rho> \<notin> resource_of ` set ts" by auto
    with frame job_frame [of \<rho> t f data r1] show "stored \<rho> r2 = stored \<rho> r1" by simp
  qed
  ultimately show ?case
    using step run res own by (simp del: run_group.simps)
qed

lemma first_error_None_iff: "first_error xs = None \<longleftrightarrow> (\<forall>x \<in> set xs. x = None)"
  by (induction xs rule: first_error.induct) simp_all

lemma persist_jobs_distinct:
  assumes "distinct (map fst (CustomText data))"
  shows "distinct (map resource_of (persist_jobs data))"
proof -
  have eq: "map resource_of (map (\<lambda>(key, value). CustomTextJob key value) m)
          = map CustomTextResource (map fst m)" for m
    by (induction m) auto
  have d: "distinct (map CustomTextResource (map fst (CustomText data)))"
    using assms by (simp add: distinct_map inj_on_def)
  have "map resource_of (persist_jobs data)
          = [TemplateResource, ThemeResource, ProfileResource, BrandingResource]
              @ map CustomTextResource (map fst (CustomText data))"
    unfolding persist_jobs_def map_append eq by simp
  with d show ?thesis by (auto simp del: map_map)
qed

lemma scheduled_distinct:
  assumes "distinct (map fst (CustomText data))"
  shows "distinct (map resource_of (scheduled order data))"
proof -
  let ?js = "persist_jobs data"
  let ?rs = "map resource_of ?js"
  have d: "distinct ?rs" by (rule persist_jobs_distinct [OF assms])
  have "map resource_of (scheduled order data)
          = map (\<lambda>i. ?rs ! i) (completion_order order (length ?js))"
    by (simp add: scheduled_def completion_order_set)
  moreover have "inj_on (\<lambda>i. ?rs ! i) (set (completion_order order (length ?js)))"
  proof (rule inj_onI)
    fix x y
    assume "x \<in> set (completion_order order (length ?js))"
      and "y \<in> set (completion_order order (length ?js))" and e: "?rs ! x = ?rs ! y"
    then have "x < length ?rs" "y < length ?rs" by (simp_all add: completion_order_set)
    with d e show "x = y" by (simp only: nth_eq_iff_index_eq)
  qed
  ultimately show ?thesis
    by (simp add: distinct_map completion_order_distinct)
qed

text \<open>
  C8, as amended. For every call of persistence on a document that has its template,
  its theme and its branding settings, in which at least one job fails, the call returns
  an error, and it is the error of the first failing job in the order in which the jobs
  finish; every job has run, and every sub-resource holds at the end what its own job
  made of it, so a write that succeeded is still in place whatever the other jobs
  returned.
\<close>

theorem persist_first_failure_no_rollback:
  assumes "Templates data \<noteq> None" and "Themes data \<noteq> None" and "Branding data \<noteq> None"
    and "distinct (map fst (CustomText data))"
    and "\<exists>t \<in> set (persist_jobs data). job_error f data r t \<noteq> None"
  shows "\<exists>e r'. persistData f order data r = (Done (Some e), r')
          \<and> first_error (map (job_error f data r) (scheduled order data)) = Some e
          \<and> (\<forall>t \<in> set (persist_jobs data).
                stored (resource_of t) r' = stored (resource_of t) (snd (run_job f data t r)))"
proof -
  have np: "\<forall>t \<in> set (scheduled order data). \<not> panics data t"
    using assms(1-3) by (auto simp: scheduled_set persist_jobs_def)
  from run_group_result [OF scheduled_distinct [OF assms(4)] np, of r r f None]
  obtain r' where run: "persistData f order data r
        = (Done (first_error (map (job_error f data r) (scheduled order data))), r')"
    and own: "\<forall>t \<in> set (persist_jobs data).
                stored (resource_of t) r' = stored (resource_of t) (snd (run_job f data t r))"
    by (auto simp: persistData_def scheduled_set)
  from assms(5) have "first_error (map (job_error f data r) (scheduled order data)) \<noteq> None"
    by (auto simp: first_error_None_iff scheduled_set)
  then obtain e where "first_error (map (job_error f data r) (scheduled order data)) = Some e"
    by auto
  with run own show ?thesis by auto
qed

text \<open>
  C8, witness: the example of section 8 of the specification. The theme write
  finishes first and succeeds, the template write fails; persistence returns the error
  of the template write and the created theme is in place.
\<close>

theorem persist_first_failure_no_rollback_witness:
  "Templates example_document \<noteq> None \<and> Themes example_document \<noteq> None
   \<and> Branding example_document \<noteq> None
   \<and> distinct (map fst (CustomText example_document))
   \<and> TemplateJob \<in> set (persist_jobs example_document)
   \<and> job_error (no_faults(SetUniversalLogin := Some (Err ''500 Internal Server Error'')))
        example_document empty_remote TemplateJob = Some (Err ''500 Internal Server Error'')
   \<and> (\<exists>e r'. persistData (no_faults(SetUniversalLogin := Some (Err ''500 Internal Server Error'')))
                  [1, 0] example_document empty_remote = (Done (Some e), r')
          \<and> first_error (map (job_error
                  (no_faults(SetUniversalLogin := Some (Err ''500 Internal Server Error'')))
                  example_document empty_remote) (scheduled [1, 0] example_document)) = Some e
          \<and> (\<forall>t \<in> set (persist_jobs example_document).
                stored (resource_of t) r' = stored (resource_of t)
                  (snd (run_job (no_faults(SetUniversalLogin := Some (Err ''500 Internal Server Error'')))
                          example_document t empty_remote))))
   \<and> fst (persistData (no_faults(SetUniversalLogin := Some (Err ''500 Internal Server Error'')))
            [1, 0] example_document empty_remote) = Done (Some (Err ''500 Internal Server Error''))
   \<and> r_theme (snd (persistData
            (no_faults(SetUniversalLogin := Some (Err ''500 Internal Server Error'')))
            [1, 0] example_document empty_remote))
       = Some (default_theme\<lparr>ID := Some new_theme_id\<rparr>)"
  (is "?H1 \<and> ?H2 \<and> ?H3 \<and> ?H4 \<and> ?H5 \<and> ?H6 \<and> ?C \<and> ?E1 \<and> ?E2")
proof -
  have h1: ?H1 and h2: ?H2 and h3: ?H3 and h4: ?H4
    by (simp_all add: example_document_def)
  have h5: ?H5 by (simp add: persist_jobs_def)
  have h6: ?H6 by code_simp
  from h5 h6 have h7: "\<exists>t \<in> set (persist_jobs example_document).
      job_error (no_faults(SetUniversalLogin := Some (Err ''500 Internal Server Error'')))
        example_document empty_remote t \<noteq> None"
    by (intro bexI [of _ TemplateJob]) simp_all
  have c: ?C by (rule persist_first_failure_no_rollback [OF h1 h2 h3 h4 h7])
  have e1: ?E1 by code_simp
  have e2: ?E2 by code_simp
  from h1 h2 h3 h4 h5 h6 c e1 e2 show ?thesis by blast
qed


text \<open>
  C8, counterexample to the claim as stated: the profile update fails and the document
  has no branding settings; the call does not return the failure, it panics.
\<close>

theorem failing_write_panic_counterexample:
  "job_error (no_faults(PromptUpdate := Some (Err ''429 Too Many Requests'')))
      (example_document\<lparr>Branding := None\<rparr>) empty_remote ProfileJob
     = Some (Err ''429 Too Many Requests'')
   \<and> fst (persistData (no_faults(PromptUpdate := Some (Err ''429 Too Many Requests''))) []
            (example_document\<lparr>Branding := None\<rparr>) empty_remote) = Panic"
  by code_simp

text \<open>
  The result of a call of persistence that does not panic, and what the job of one entry
  of the custom text does to the remote state.
\<close>

lemma persistData_result:
  assumes "Templates data \<noteq> None" and "Themes data \<noteq> None" and "Branding data \<noteq> None"
    and "distinct (map fst (CustomText data))"
  shows "\<exists>r'. persistData f order data r
            = (Done (first_error (map (job_error f data r) (scheduled order data))), r')
          \<and> (\<forall>t \<in> set (persist_jobs data).
                stored (resource_of t) r' = stored (resource_of t) (snd (run_job f data t r)))"
proof -
  have np: "\<forall>t \<in> set (scheduled order data). \<not> panics data t"
    using assms(1-3) by (auto simp: scheduled_set persist_jobs_def)
  from run_group_result [OF scheduled_distinct [OF assms(4)] np, of r r f None]
  show ?thesis by (auto simp: persistData_def scheduled_set)
qed

lemma custom_text_job_Skip:
  "custom_text_action key value = Skip \<Longrightarrow>
   run_job f data (CustomTextJob key value) r = (Done None, r)"
  by simp

lemma custom_text_job_Fail:
  "custom_text_action key value = Fail err \<Longrightarrow>
   run_job f data (CustomTextJob key value) r = (Done (Some err), r)"
  by simp

lemma custom_text_job_Write:
  "custom_text_action key value = Write p l m \<Longrightarrow>
   run_job f data (CustomTextJob key value) r =
     (case f (SetCustomText p) of
        Some e \<Rightarrow> (Done (Some e), r)
      | None \<Rightarrow> (Done None, r\<lparr>r_custom_text := AList.update (p, l) m (r_custom_text r)\<rparr>))"
  by (simp add: Prompt_SetCustomText_def split: option.splits)


lemma custom_text_job_idle_iff:
  "(\<forall>r0. run_job f data (CustomTextJob key value) r0 = (Done None, r0)) \<longleftrightarrow>
     Contains (Marshal value) ''{}'' \<or> unmarshal_object value = Inr []"
proof
  assume "Contains (Marshal value) ''{}'' \<or> unmarshal_object value = Inr []"
  then have "custom_text_action key value = Skip"
    using custom_text_action_cases [of key "value"] by blast
  then show "\<forall>r0. run_job f data (CustomTextJob key value) r0 = (Done None, r0)"
    by simp
next
  assume idle: "\<forall>r0. run_job f data (CustomTextJob key value) r0 = (Done None, r0)"
  show "Contains (Marshal value) ''{}'' \<or> unmarshal_object value = Inr []"
  proof (cases "custom_text_action key value")
    case Skip
    then show ?thesis using custom_text_action_cases [of key "value"] by blast
  next
    case (Fail err)
    with idle [rule_format, of empty_remote] show ?thesis by simp
  next
    case (Write p l m)
    from idle [rule_format, of empty_remote] custom_text_job_Write [OF Write, of f data empty_remote]
    have "r_custom_text (empty_remote\<lparr>r_custom_text := AList.update (p, l) m (r_custom_text empty_remote)\<rparr>)
            = r_custom_text empty_remote"
      by (cases "f (SetCustomText p)") simp_all
    then show ?thesis by (simp add: empty_remote_def)
  qed
qed

text \<open>
  C3, as amended. For every document passed to persistence that has its template, its
  theme and its branding settings, and every entry of its custom text: the job of the
  entry does nothing (no write, no error) if and only if the serialization of the entry
  contains the two characters \<^verbatim>\<open>{}\<close> anywhere or the entry decodes to an empty
  mapping, and then the remote side holds for that prompt area after the call what it
  held before. An entry that is an object and whose serialization does not contain
  \<^verbatim>\<open>{}\<close> is written for the fixed locale \<^verbatim>\<open>en\<close>: when the write does not fail the
  remote side holds the entry after the call, and when it fails the call returns an
  error. An entry that is neither an object nor null and does not contain \<^verbatim>\<open>{}\<close> is not
  written: its decoding fails and the call returns an error. In particular an entry that
  holds an empty object at any depth is skipped, whatever else it holds.
\<close>

theorem persist_custom_text_entry:
  assumes "Templates data \<noteq> None" and "Themes data \<noteq> None" and "Branding data \<noteq> None"
    and "distinct (map fst (CustomText data))"
    and "(key, value) \<in> set (CustomText data)"
  shows "((\<forall>r0. run_job f data (CustomTextJob key value) r0 = (Done None, r0)) \<longleftrightarrow>
            Contains (Marshal value) ''{}'' \<or> unmarshal_object value = Inr [])
       \<and> (Contains (Marshal value) ''{}'' \<or> unmarshal_object value = Inr [] \<longrightarrow>
            stored (CustomTextResource key) (snd (persistData f order data r))
              = stored (CustomTextResource key) r)
       \<and> (\<forall>m. value = JObj m \<and> \<not> Contains (Marshal value) ''{}''
               \<and> f (SetCustomText key) = None \<longrightarrow>
            stored (CustomTextResource key) (snd (persistData f order data r))
              = StoredText (Some m))
       \<and> (\<forall>m e. value = JObj m \<and> \<not> Contains (Marshal value) ''{}''
               \<and> f (SetCustomText key) = Some e \<longrightarrow>
            stored (CustomTextResource key) (snd (persistData f order data r))
              = stored (CustomTextResource key) r
            \<and> (\<exists>e'. fst (persistData f order data r) = Done (Some e')))
       \<and> (\<not> is_object value \<and> value \<noteq> JNull \<and> \<not> Contains (Marshal value) ''{}'' \<longrightarrow>
            stored (CustomTextResource key) (snd (persistData f order data r))
              = stored (CustomTextResource key) r
            \<and> (\<exists>e'. fst (persistData f order data r) = Done (Some e')))
       \<and> (has_empty_object value \<longrightarrow>
            stored (CustomTextResource key) (snd (persistData f order data r))
              = stored (CustomTextResource key) r)"
proof -
  let ?t = "CustomTextJob key value"
  let ?K = "CustomTextResource key"
  let ?P = "persistData f order data r"
  from assms(5) have mem: "?t \<in> set (persist_jobs data)"
    by (force simp: persist_jobs_def)
  from persistData_result [OF assms(1-4), of f order r]
  have res: "fst ?P = Done (first_error (map (job_error f data r) (scheduled order data)))"
    and own: "stored ?K (snd ?P) = stored ?K (snd (run_job f data ?t r))"
    using mem by auto
  have failing: "\<exists>e'. fst ?P = Done (Some e')" if "job_error f data r ?t \<noteq> None"
  proof -
    from that mem have "first_error (map (job_error f data r) (scheduled order data)) \<noteq> None"
      by (auto simp: first_error_None_iff scheduled_set)
    with res show ?thesis by auto
  qed
  note cases = custom_text_action_cases [of key "value"]
  have skip: "stored ?K (snd ?P) = stored ?K r" if "custom_text_action key value = Skip"
    using own custom_text_job_Skip [OF that, of f data r] by simp
  have c1: "Contains (Marshal value) ''{}'' \<or> unmarshal_object value = Inr [] \<longrightarrow>
              stored ?K (snd ?P) = stored ?K r"
    using cases skip by blast
  have c5: "has_empty_object value \<longrightarrow> stored ?K (snd ?P) = stored ?K r"
    using cases skip by blast
  have c2: "\<forall>m. value = JObj m \<and> \<not> Contains (Marshal value) ''{}''
               \<and> f (SetCustomText key) = None \<longrightarrow> stored ?K (snd ?P) = StoredText (Some m)"
  proof (intro allI impI)
    fix m
    assume a: "value = JObj m \<and> \<not> Contains (Marshal value) ''{}'' \<and> f (SetCustomText key) = None"
    with cases have w: "custom_text_action key value = Write key ''en'' m" by blast
    from custom_text_job_Write [OF w, of f data r] a own
    show "stored ?K (snd ?P) = StoredText (Some m)"
      by (simp add: update_conv')
  qed
  have c3: "\<forall>m e. value = JObj m \<and> \<not> Contains (Marshal value) ''{}''
               \<and> f (SetCustomText key) = Some e \<longrightarrow>
            stored ?K (snd ?P) = stored ?K r \<and> (\<exists>e'. fst ?P = Done (Some e'))"
  proof (intro allI impI)
    fix m e
    assume a: "value = JObj m \<and> \<not> Contains (Marshal value) ''{}'' \<and> f (SetCustomText key) = Some e"
    with cases have w: "custom_text_action key value = Write key ''en'' m" by blast
    from custom_text_job_Write [OF w, of f data r] a
    have run: "run_job f data ?t r = (Done (Some e), r)" by simp
    then have "job_error f data r ?t \<noteq> None" by (simp add: job_error.simps)
    with failing run own
    show "stored ?K (snd ?P) = stored ?K r \<and> (\<exists>e'. fst ?P = Done (Some e'))" by simp
  qed
  have c4: "\<not> is_object value \<and> value \<noteq> JNull \<and> \<not> Contains (Marshal value) ''{}'' \<longrightarrow>
            stored ?K (snd ?P) = stored ?K r \<and> (\<exists>e'. fst ?P = Done (Some e'))"
  proof
    assume "\<not> is_object value \<and> value \<noteq> JNull \<and> \<not> Contains (Marshal value) ''{}''"
    with cases obtain err where "custom_text_action key value = Fail err" by blast
    from custom_text_job_Fail [OF this, of f data r]
    have run: "run_job f data ?t r = (Done (Some err), r)" .
    then have "job_error f data r ?t \<noteq> None" by (simp add: job_error.simps)
    with failing run own
    show "stored ?K (snd ?P) = stored ?K r \<and> (\<exists>e'. fst ?P = Done (Some e'))" by simp
  qed
  from custom_text_job_idle_iff [of f data key "value"] c1 c2 c3 c4 c5
  show ?thesis by blast
qed

text \<open>
  C3, witness: an entry that is written, the same entry when the write fails, an entry
  with an empty object among its members, an entry that is a string.
\<close>

theorem persist_custom_text_entry_witness:
  "Templates example_document \<noteq> None \<and> Themes example_document \<noteq> None
   \<and> Branding example_document \<noteq> None
   \<and> (''login'', JObj [(''login'', JObj [(''title'', JStr ''Welcome'')])])
        \<in> set (CustomText example_document)
   \<and> \<not> Contains (Marshal (JObj [(''login'', JObj [(''title'', JStr ''Welcome'')])])) ''{}''
   \<and> stored (CustomTextResource ''login'')
        (snd (persistData no_faults [4, 2] example_document empty_remote))
       = StoredText (Some [(''login'', JObj [(''title'', JStr ''Welcome'')])])
   \<and> stored (CustomTextResource ''login'')
        (snd (persistData (no_faults(SetCustomText ''login'' := Some (Err ''500 Internal Server Error'')))
               [4, 2] example_document empty_remote))
       = stored (CustomTextResource ''login'') empty_remote
   \<and> (\<exists>e'. fst (persistData
                  (no_faults(SetCustomText ''login'' := Some (Err ''500 Internal Server Error'')))
                  [4, 2] example_document empty_remote) = Done (Some e'))
   \<and> has_empty_object (JObj [(''login'', JObj [(''title'', JStr ''Welcome'')]),
                              (''login-id'', JObj [])])
   \<and> stored (CustomTextResource ''login'')
        (snd (persistData no_faults []
               (example_document\<lparr>CustomText :=
                  [(''login'', JObj [(''login'', JObj [(''title'', JStr ''Welcome'')]),
                                    (''login-id'', JObj [])])]\<rparr>) empty_remote))
       = stored (CustomTextResource ''login'') empty_remote
   \<and> \<not> is_object (JStr ''Welcome'') \<and> JStr ''Welcome'' \<noteq> JNull
   \<and> \<not> Contains (Marshal (JStr ''Welcome'')) ''{}''
   \<and> stored (CustomTextResource ''login'')
        (snd (persistData no_faults []
               (example_document\<lparr>CustomText := [(''login'', JStr ''Welcome'')]\<rparr>) empty_remote))
       = stored (CustomTextResource ''login'') empty_remote
   \<and> (\<exists>e'. fst (persistData no_faults []
               (example_document\<lparr>CustomText := [(''login'', JStr ''Welcome'')]\<rparr>) empty_remote)
             = Done (Some e'))"
  (is "?P1 \<and> ?P2 \<and> ?P3 \<and> ?M1 \<and> ?N1 \<and> ?W \<and> ?U1 \<and> ?E1 \<and> ?H \<and> ?U2 \<and> ?S1 \<and> ?S2 \<and> ?N3 \<and> ?U3 \<and> ?E3")
proof -
  let ?V1 = "JObj [(''login'', JObj [(''title'', JStr ''Welcome'')])]"
  let ?V2 = "JObj [(''login'', JObj [(''title'', JStr ''Welcome'')]), (''login-id'', JObj [])]"
  let ?D2 = "example_document\<lparr>CustomText := [(''login'', ?V2)]\<rparr>"
  let ?D3 = "example_document\<lparr>CustomText := [(''login'', JStr ''Welcome'')]\<rparr>"
  let ?F = "no_faults(SetCustomText ''login'' := Some (Err ''500 Internal Server Error''))"
  have p1: ?P1 and p2: ?P2 and p3: ?P3 and m1: ?M1
    and d1: "distinct (map fst (CustomText example_document))"
    by (simp_all add: example_document_def)
  have n1: ?N1 by code_simp
  have v1: "?V1 = JObj [(''login'', JObj [(''title'', JStr ''Welcome'')])]" by simp
  have f0: "no_faults (SetCustomText ''login'') = None" by (simp add: no_faults_def)
  have f1: "?F (SetCustomText ''login'') = Some (Err ''500 Internal Server Error'')" by simp
  from persist_custom_text_entry [OF p1 p2 p3 d1 m1, of no_faults "[4, 2]" empty_remote] v1 n1 f0
  have w: ?W by blast
  from persist_custom_text_entry [OF p1 p2 p3 d1 m1, of ?F "[4, 2]" empty_remote] v1 n1 f1
  have u1: ?U1 and e1: ?E1 by blast+
  have q1: "Templates ?D2 \<noteq> None" and q2: "Themes ?D2 \<noteq> None" and q3: "Branding ?D2 \<noteq> None"
    and m2: "(''login'', ?V2) \<in> set (CustomText ?D2)"
    and d2: "distinct (map fst (CustomText ?D2))"
    by (simp_all add: example_document_def)
  have h: ?H by simp
  from persist_custom_text_entry [OF q1 q2 q3 d2 m2, of no_faults "[]" empty_remote] h
  have u2: ?U2 by blast
  have r1: "Templates ?D3 \<noteq> None" and r2: "Themes ?D3 \<noteq> None" and r3: "Branding ?D3 \<noteq> None"
    and m3: "(''login'', JStr ''Welcome'') \<in> set (CustomText ?D3)"
    and d3: "distinct (map fst (CustomText ?D3))"
    by (simp_all add: example_document_def)
  have s1: ?S1 and s2: ?S2 by simp_all
  have n3: ?N3 by code_simp
  from persist_custom_text_entry [OF r1 r2 r3 d3 m3, of no_faults "[]" empty_remote] s1 s2 n3
  have u3: ?U3 and e3: ?E3 by blast+
  from p1 p2 p3 m1 n1 w u1 e1 h u2 s1 s2 n3 u3 e3 show ?thesis by blast
qed

text \<open>
  C3, counterexample to the claim as stated: the entry is not the empty object, does
  not decode to an empty mapping and holds a leaf; the call writes the four other
  sub-resources, returns no error, and the remote side holds no custom text, because
  one member of the entry is an empty object.
\<close>

theorem nonempty_entry_skipped_counterexample:
  "Templates (example_document\<lparr>CustomText :=
       [(''login'', JObj [(''login'', JObj [(''title'', JStr ''Welcome'')]),
                         (''login-id'', JObj [])])]\<rparr>) \<noteq> None
   \<and> Themes (example_document\<lparr>CustomText :=
       [(''login'', JObj [(''login'', JObj [(''title'', JStr ''Welcome'')]),
                         (''login-id'', JObj [])])]\<rparr>) \<noteq> None
   \<and> Branding (example_document\<lparr>CustomText :=
       [(''login'', JObj [(''login'', JObj [(''title'', JStr ''Welcome'')]),
                         (''login-id'', JObj [])])]\<rparr>) \<noteq> None
   \<and> Marshal (JObj [(''login'', JObj [(''title'', JStr ''Welcome'')]), (''login-id'', JObj [])])
     \<noteq> ''{}''
   \<and> unmarshal_object (JObj [(''login'', JObj [(''title'', JStr ''Welcome'')]), (''login-id'', JObj [])])
     = Inr [(''login'', JObj [(''title'', JStr ''Welcome'')]), (''login-id'', JObj [])]
   \<and> ([''login'', ''title''], JStr ''Welcome'')
       \<in> set (leaves [(''login'', JObj [(''title'', JStr ''Welcome'')]), (''login-id'', JObj [])])
   \<and> persistData no_faults []
        (example_document\<lparr>CustomText :=
           [(''login'', JObj [(''login'', JObj [(''title'', JStr ''Welcome'')]),
                             (''login-id'', JObj [])])]\<rparr>) empty_remote
     = (Done None,
        \<lparr> r_template = Some ''<html></html>'',
          r_theme = Some (default_theme\<lparr>ID := Some new_theme_id\<rparr>),
          r_prompt = Some example_profile,
          r_branding = Some (example_branding\<lparr>LogoURL := None\<rparr>),
          r_custom_text = [] \<rparr>)"
  by code_simp

end
